theory Spec2Isabelle
  imports Main "HOL-Library.Word"
begin

section \<open>Runtime types and values (the part of package reflect that ecs.go uses)\<close>

text \<open>
  ecs.go matches components against system signatures through package \<^verbatim>\<open>reflect\<close>:
  identity of types (\<^verbatim>\<open>==\<close> on \<^verbatim>\<open>reflect.Type\<close>), \<^verbatim>\<open>Kind\<close>, \<^verbatim>\<open>NumIn\<close>/\<^verbatim>\<open>In\<close>/\<^verbatim>\<open>NumOut\<close>/\<^verbatim>\<open>Out\<close>
  of a function type, \<^verbatim>\<open>AssignableTo\<close> and \<^verbatim>\<open>Zero\<close>. A runtime type is a term of
  \<open>rtype\<close>; two types are identical when the terms are equal. A defined type carries its
  name, the type it was declared from and the names of its methods.
\<close>

datatype kind = KBool | KInt | KUint64 | KString | KStruct | KPtr | KFunc | KInterface

datatype rtype =
    BoolT
  | IntT
  | Uint64T
  | StringT
  | Defined string rtype "string list"
  | StructT "rtype list"
  | PtrT rtype
  | FuncT "rtype list" "rtype list"
  | InterfaceT "string list"

fun Kind :: "rtype \<Rightarrow> kind" where
  "Kind BoolT = KBool"
| "Kind IntT = KInt"
| "Kind Uint64T = KUint64"
| "Kind StringT = KString"
| "Kind (Defined n u ms) = Kind u"
| "Kind (StructT fs) = KStruct"
| "Kind (PtrT t) = KPtr"
| "Kind (FuncT ins outs) = KFunc"
| "Kind (InterfaceT ms) = KInterface"

fun underlying :: "rtype \<Rightarrow> rtype" where
  "underlying (Defined n u ms) = underlying u"
| "underlying t = t"

fun hasName :: "rtype \<Rightarrow> bool" where
  "hasName BoolT = True"
| "hasName IntT = True"
| "hasName Uint64T = True"
| "hasName StringT = True"
| "hasName (Defined n u ms) = True"
| "hasName t = False"

fun methods :: "rtype \<Rightarrow> string list" where
  "methods (InterfaceT ms) = ms"
| "methods (Defined n u ms) = (case underlying u of InterfaceT ims \<Rightarrow> ims | _ \<Rightarrow> ms)"
| "methods (PtrT (Defined n u ms)) =
     (case underlying u of InterfaceT ims \<Rightarrow> [] | PtrT p \<Rightarrow> [] | _ \<Rightarrow> ms)"
| "methods t = []"

text \<open>The inputs and outputs of a function type; empty for any other type.\<close>

fun ins :: "rtype \<Rightarrow> rtype list" where
  "ins (FuncT is os) = is"
| "ins (Defined n u ms) = ins u"
| "ins t = []"

fun outs :: "rtype \<Rightarrow> rtype list" where
  "outs (FuncT is os) = os"
| "outs (Defined n u ms) = outs u"
| "outs t = []"

definition NumIn :: "rtype \<Rightarrow> nat" where
  "NumIn t = length (ins t)"

definition NumOut :: "rtype \<Rightarrow> nat" where
  "NumOut t = length (outs t)"

text \<open>
  \<^verbatim>\<open>V.AssignableTo(T)\<close>: the types are identical, or they have identical underlying types and
  one of them has no name, or \<open>T\<close> is an interface type whose methods \<open>V\<close> has.
\<close>

definition directlyAssignable :: "rtype \<Rightarrow> rtype \<Rightarrow> bool" where
  "directlyAssignable T V =
     (if T = V then True
      else if (hasName T \<and> hasName V) \<or> Kind T \<noteq> Kind V then False
      else underlying T = underlying V)"

definition implements :: "rtype \<Rightarrow> rtype \<Rightarrow> bool" where
  "implements T V =
     (if Kind T \<noteq> KInterface then False
      else list_all (\<lambda>m. m \<in> set (methods V)) (methods T))"

definition AssignableTo :: "rtype \<Rightarrow> rtype \<Rightarrow> bool" where
  "AssignableTo V T = (directlyAssignable T V \<or> implements T V)"

text \<open>
  The data of a value. An integer of type \<^verbatim>\<open>int\<close> is kept as a mathematical integer: the
  only arithmetic ecs.go does on one is \<^verbatim>\<open>i + start\<close> below the length of a slice. A value of
  an interface type holds \<open>PNil\<close> or the dynamic type and data of what it contains.
  \<open>PWorld\<close> is the pointer to the world, \<open>PIter\<close> the function that \<^verbatim>\<open>makeObjectIter\<close>
  builds for the value's type.
\<close>

datatype payload =
    PBool bool
  | PInt int
  | PUint "64 word"
  | PStr string
  | PStruct "payload list"
  | PNil
  | PDyn rtype payload
  | PWorld
  | PTime int
  | PIter

text \<open>A valid \<^verbatim>\<open>reflect.Value\<close>: a type and data. The zero \<^verbatim>\<open>reflect.Value{}\<close> is \<open>None\<close>.\<close>

datatype rvalue = V (vtype: rtype) (vdata: payload)

text \<open>An \<^verbatim>\<open>interface{}\<close>: \<open>None\<close> is the nil interface, \<open>Some v\<close> holds a typed value.\<close>

type_synonym iface = "rvalue option"

definition ValueOf :: "iface \<Rightarrow> rvalue option" where
  "ValueOf c = c"

definition TypeOf :: "iface \<Rightarrow> rtype option" where
  "TypeOf c = map_option vtype c"

fun zero_payload :: "rtype \<Rightarrow> payload" where
  "zero_payload BoolT = PBool False"
| "zero_payload IntT = PInt 0"
| "zero_payload Uint64T = PUint 0"
| "zero_payload StringT = PStr []"
| "zero_payload (Defined n u ms) = zero_payload u"
| "zero_payload (StructT fs) = PStruct (map zero_payload fs)"
| "zero_payload (PtrT t) = PNil"
| "zero_payload (FuncT is os) = PNil"
| "zero_payload (InterfaceT ms) = PNil"

definition Zero :: "rtype \<Rightarrow> rvalue" where
  "Zero t = V t (zero_payload t)"

text \<open>\<^verbatim>\<open>v.IsNil()\<close> and \<^verbatim>\<open>v.Interface()\<close>.\<close>

definition IsNil :: "rvalue \<Rightarrow> bool" where
  "IsNil v = (vdata v = PNil)"

definition Interface :: "rvalue \<Rightarrow> iface" where
  "Interface v =
     (if Kind (vtype v) = KInterface
      then (case vdata v of PDyn t p \<Rightarrow> Some (V t p) | _ \<Rightarrow> None)
      else Some v)"

text \<open>
  What \<^verbatim>\<open>reflect\<close> does to a value handed to a parameter or result of type \<open>T\<close>
  (\<^verbatim>\<open>Value.assignTo\<close>): \<open>None\<close> is its panic, raised when the value is not assignable.
\<close>

definition assignTo :: "rvalue \<Rightarrow> rtype \<Rightarrow> rvalue option" where
  "assignTo v T =
     (if directlyAssignable T (vtype v) then Some (V T (vdata v))
      else if implements T (vtype v) then
        Some (V T (case Interface v of None \<Rightarrow> PNil | Some d \<Rightarrow> PDyn (vtype d) (vdata d)))
      else None)"

text \<open>The package-level type constants of ecs.go.\<close>

definition errorType :: rtype where
  "errorType = Defined ''error'' (InterfaceT [''Error'']) []"

definition timeType :: rtype where
  "timeType = Defined ''time.Time'' (StructT []) []"

definition entityType :: rtype where
  "entityType = Defined ''ecs.Entity'' Uint64T []"

definition intType :: rtype where
  "intType = IntT"

definition worldType :: rtype where
  "worldType = PtrT (Defined ''ecs.World'' (StructT []) [])"


section \<open>Objects\<close>

type_synonym Entity = "64 word"

record Object =
  entity :: Entity
  components :: "iface list"

text \<open>
  The run-time panics that ecs.go can raise: a slice expression out of range
  (\<^verbatim>\<open>slice bounds out of range [a:b]\<close>), \<^verbatim>\<open>Type\<close> called on the zero \<^verbatim>\<open>reflect.Value\<close>, the
  type assertion \<^verbatim>\<open>.(int)\<close> on a value of another type, and a value that \<^verbatim>\<open>reflect\<close> cannot
  assign to the type of a parameter or result, and \<^verbatim>\<open>NumIn\<close> called on a type that is not a
  function type.
\<close>

datatype panic =
    SliceBounds int int
  | TypeOfZeroValue
  | InterfaceConversion rtype
  | NotAssignable rtype rtype
  | WrongArgumentCount
  | NumInOfNonFunc rtype

text \<open>\<^verbatim>\<open>Object.Component\<close>: the loop \<^verbatim>\<open>for _, c := range ob.components\<close>.\<close>

fun Component_loop :: "rtype option \<Rightarrow> iface list \<Rightarrow> iface" where
  "Component_loop t [] = None"
| "Component_loop t (c # cs) = (if TypeOf c = t then c else Component_loop t cs)"

definition Component :: "Object \<Rightarrow> iface \<Rightarrow> iface" where
  "Component ob component = Component_loop (TypeOf component) (components ob)"

definition AddComponent :: "Object \<Rightarrow> iface \<Rightarrow> Object" where
  "AddComponent ob component = ob\<lparr>components := components ob @ [component]\<rparr>"

text \<open>
  \<^verbatim>\<open>Object.RemoveComponent\<close> ranges over the slice \<^verbatim>\<open>ob.components\<close> as it was when the loop
  started, and each removal \<^verbatim>\<open>append(ob.components[:i], ob.components[i+1:]...)\<close> moves the
  elements behind \<open>i\<close> one place down in the same backing array and shortens
  \<^verbatim>\<open>ob.components\<close> by one. The loop state is therefore the backing array \<open>arr\<close> (as long as
  the slice was at the start) and the current length \<open>n\<close> of \<^verbatim>\<open>ob.components\<close>; the loop
  reads \<open>arr ! i\<close>. The slice expression \<^verbatim>\<open>ob.components[i+1:]\<close> panics when \<open>i + 1\<close> exceeds
  the current length.
\<close>

definition shift_down :: "'a list \<Rightarrow> nat \<Rightarrow> nat \<Rightarrow> 'a list" where
  "shift_down arr n i =
     map (\<lambda>j. if i \<le> j \<and> j + 1 < n then arr ! (j + 1) else arr ! j) [0..<length arr]"

function RemoveComponent_loop ::
  "rtype option \<Rightarrow> iface list \<Rightarrow> nat \<Rightarrow> nat \<Rightarrow> panic + iface list" where
  "RemoveComponent_loop t arr n i =
     (if i < length arr then
        (if TypeOf (arr ! i) = t then
           (if n < i + 1 then Inl (SliceBounds (int i + 1) (int n))
            else RemoveComponent_loop t (shift_down arr n i) (n - 1) (i + 1))
         else RemoveComponent_loop t arr n (i + 1))
      else Inr (take n arr))"
  by pat_completeness auto
termination
  by (relation "measure (\<lambda>(t, arr, n, i). length arr - i)") (auto simp: shift_down_def)

definition RemoveComponent :: "Object \<Rightarrow> iface \<Rightarrow> panic + Object" where
  "RemoveComponent ob component =
     (case RemoveComponent_loop (TypeOf component) (components ob) (length (components ob)) 0 of
        Inl p \<Rightarrow> Inl p
      | Inr cs \<Rightarrow> Inr (ob\<lparr>components := cs\<rparr>))"

text \<open>
  \<^verbatim>\<open>Object.getComponentValue\<close>: \<^verbatim>\<open>v.Type()\<close> panics on the zero Value that
  \<^verbatim>\<open>reflect.ValueOf\<close> gives for a nil component.
\<close>

fun getComponentValue_loop :: "rtype \<Rightarrow> iface list \<Rightarrow> panic + rvalue option" where
  "getComponentValue_loop t [] = Inr None"
| "getComponentValue_loop t (c # cs) =
     (case ValueOf c of
        None \<Rightarrow> Inl TypeOfZeroValue
      | Some v \<Rightarrow> if vtype v = t then Inr (Some v) else getComponentValue_loop t cs)"

definition getComponentValue :: "Object \<Rightarrow> rtype \<Rightarrow> panic + rvalue option" where
  "getComponentValue ob t = getComponentValue_loop t (components ob)"

section \<open>The world\<close>

text \<open>
  The world holds pointers to objects, so the objects live in a heap indexed by address.
  The state has the fields of \<^verbatim>\<open>World\<close> (\<open>objects\<close>, and whether \<^verbatim>\<open>OnError\<close> is set), the heap,
  the package-level counter \<^verbatim>\<open>gid\<close>, and what the program has done so far: the calls of the
  \<^verbatim>\<open>OnError\<close> callback, the lines written with \<^verbatim>\<open>log.Printf\<close>, and the calls of system
  functions made by \<^verbatim>\<open>f.Call\<close>. A pointer to an object is never nil here.
\<close>

type_synonym addr = nat

record state =
  objects :: "addr list"
  OnError :: bool
  heap :: "addr \<Rightarrow> Object"
  allocated :: nat
  gid :: "64 word"
  handled :: "(string \<times> iface list \<times> iface) list"
  logged :: "string list"
  called :: "(addr \<times> rvalue list) list"

definition NewWorld :: state where
  "NewWorld = \<lparr>objects = [], OnError = False, heap = (\<lambda>a. \<lparr>entity = 0, components = []\<rparr>),
     allocated = 0, gid = 0, handled = [], logged = [], called = []\<rparr>"

text \<open>\<^verbatim>\<open>NewObject\<close>: \<^verbatim>\<open>atomic.AddUint64(&gid, 1)\<close> adds one modulo \<open>2^64\<close> and returns the new value.\<close>

definition NewObject :: "state \<Rightarrow> iface list \<Rightarrow> addr \<times> state" where
  "NewObject st cs =
     (let g = gid st + 1; a = allocated st
      in (a, st\<lparr>heap := (heap st)(a := \<lparr>entity = g, components = cs\<rparr>),
                allocated := a + 1, gid := g\<rparr>))"

definition AddObject :: "state \<Rightarrow> addr \<Rightarrow> Entity \<times> state" where
  "AddObject st ob = (entity (heap st ob), st\<lparr>objects := objects st @ [ob]\<rparr>)"

fun GetObject_loop :: "(addr \<Rightarrow> Object) \<Rightarrow> Entity \<Rightarrow> addr list \<Rightarrow> addr option" where
  "GetObject_loop h e [] = None"
| "GetObject_loop h e (ob # obs) =
     (if entity (h ob) = e then Some ob else GetObject_loop h e obs)"

definition GetObject :: "state \<Rightarrow> Entity \<Rightarrow> addr option" where
  "GetObject st e = GetObject_loop (heap st) e (objects st)"

function RemoveObject_loop :: "(addr \<Rightarrow> Object) \<Rightarrow> Entity \<Rightarrow> addr list \<Rightarrow> nat \<Rightarrow> addr list" where
  "RemoveObject_loop h e obs i =
     (if i < length obs then
        (if entity (h (obs ! i)) = e then take i obs @ drop (i + 1) obs
         else RemoveObject_loop h e obs (i + 1))
      else obs)"
  by pat_completeness auto
termination
  by (relation "measure (\<lambda>(h, e, obs, i). length obs - i)") auto

definition RemoveObject :: "state \<Rightarrow> Entity \<Rightarrow> state" where
  "RemoveObject st e = st\<lparr>objects := RemoveObject_loop (heap st) e (objects st) 0\<rparr>"


section \<open>Systems\<close>

text \<open>
  The function of a system is a function value: its type, the name the runtime reports for
  it, and what it computes. \<open>body args st i\<close> is the data of result \<open>i\<close> of a call with the
  arguments \<open>args\<close> in the state \<open>st\<close>: a function may read the world (an iterator parameter
  lets it search the objects), and it neither changes the objects of the world nor panics.
  \<open>Ticker\<close> is \<open>None\<close> for the nil channel, and \<open>Some ts\<close> for a channel that delivers the
  timestamps \<open>ts\<close> and is then closed.
\<close>

record func =
  ftype :: rtype
  fname :: string
  body :: "rvalue list \<Rightarrow> state \<Rightarrow> nat \<Rightarrow> payload"

record System =
  Func :: func
  Name :: string
  Ticker :: "int list option"

text \<open>
  \<^verbatim>\<open>f.Call(argValues)\<close>: \<^verbatim>\<open>reflect\<close> assigns each argument to its parameter's type and
  panics when it cannot; result \<open>i\<close> is a value of the declared type \<^verbatim>\<open>Out(i)\<close>.
\<close>

fun assignAll :: "rvalue list \<Rightarrow> rtype list \<Rightarrow> panic + rvalue list" where
  "assignAll [] [] = Inr []"
| "assignAll (v # vs) (t # ts) =
     (case assignTo v t of
        None \<Rightarrow> Inl (NotAssignable (vtype v) t)
      | Some x \<Rightarrow> (case assignAll vs ts of Inl p \<Rightarrow> Inl p | Inr xs \<Rightarrow> Inr (x # xs)))"
| "assignAll vs ts = Inl WrongArgumentCount"

definition Call :: "func \<Rightarrow> rvalue list \<Rightarrow> state \<Rightarrow> panic + rvalue list" where
  "Call f args st =
     (case assignAll args (ins (ftype f)) of
        Inl p \<Rightarrow> Inl p
      | Inr xs \<Rightarrow>
          Inr (map (\<lambda>i. V (outs (ftype f) ! i) (body f xs st i)) [0..<NumOut (ftype f)]))"

definition Error :: "iface \<Rightarrow> string" where
  "Error err = (case err of Some (V t (PStr m)) \<Rightarrow> m | _ \<Rightarrow> [])"

definition handleSystemError :: "state \<Rightarrow> string \<Rightarrow> iface list \<Rightarrow> iface \<Rightarrow> state" where
  "handleSystemError st name args err =
     (if OnError st then st\<lparr>handled := handled st @ [(name, args, err)]\<rparr>
      else st\<lparr>logged := logged st @
             [''system '' @ [CHR 0x22] @ name @ [CHR 0x22] @ '' returned error: '' @ Error err]\<rparr>)"

subsection \<open>The query iterator\<close>

definition makeObjectIter :: "rtype \<Rightarrow> string + rvalue" where
  "makeObjectIter t =
     (if NumIn t > 1 then Inl ''invalid signature: at most one argument expected''
      else if NumOut t < 2 then Inl ''invalid signature: at least two return values expected''
      else if Kind (outs t ! (NumOut t - 1)) \<noteq> KBool
        then Inl ''invalid signature: last return value must be a boolean''
      else Inr (V t PIter))"

text \<open>
  The function that \<^verbatim>\<open>makeObjectIter\<close> builds reads the world when it is called.
  \<open>iter_start\<close> is its first statement: \<^verbatim>\<open>args[0].Interface().(int)\<close> panics for a value whose
  type is of kind int but is not \<^verbatim>\<open>int\<close> itself.
\<close>

definition iter_start :: "rtype \<Rightarrow> rvalue list \<Rightarrow> panic + int" where
  "iter_start t args =
     (if NumIn t = 1 \<and> Kind (ins t ! 0) = KInt then
        (case args of
           V ty (PInt k) # rest \<Rightarrow> if ty = intType then Inr k else Inl (InterfaceConversion ty)
         | V ty p # rest \<Rightarrow> Inl (InterfaceConversion ty)
         | [] \<Rightarrow> Inl WrongArgumentCount)
      else Inr 0)"

text \<open>
  The loop over the outputs but the last, for one object at index \<open>idx\<close>: \<open>Inr None\<close> is
  \<^verbatim>\<open>continue ol\<close>.
\<close>

fun iter_outputs :: "Object \<Rightarrow> int \<Rightarrow> rtype list \<Rightarrow> panic + rvalue list option" where
  "iter_outputs ob idx [] = Inr (Some [])"
| "iter_outputs ob idx (ot # ots) =
     (if ot = intType then
        (case iter_outputs ob idx ots of
           Inr (Some rs) \<Rightarrow> Inr (Some (V intType (PInt idx) # rs))
         | r \<Rightarrow> r)
      else if ot = entityType then
        (case iter_outputs ob idx ots of
           Inr (Some rs) \<Rightarrow> Inr (Some (V entityType (PUint (entity ob)) # rs))
         | r \<Rightarrow> r)
      else
        (case getComponentValue ob ot of
           Inl p \<Rightarrow> Inl p
         | Inr None \<Rightarrow> Inr None
         | Inr (Some c) \<Rightarrow>
             (case iter_outputs ob idx ots of
                Inr (Some rs) \<Rightarrow> Inr (Some (c # rs))
              | r \<Rightarrow> r)))"

fun iter_loop ::
  "(addr \<Rightarrow> Object) \<Rightarrow> rtype list \<Rightarrow> int \<Rightarrow> addr list \<Rightarrow> panic + rvalue list option" where
  "iter_loop h ots idx [] = Inr None"
| "iter_loop h ots idx (ob # obs) =
     (case iter_outputs (h ob) idx ots of
        Inl p \<Rightarrow> Inl p
      | Inr (Some rs) \<Rightarrow> Inr (Some (rs @ [V BoolT (PBool True)]))
      | Inr None \<Rightarrow> iter_loop h ots (idx + 1) obs)"

definition iter_not_found :: "state \<Rightarrow> rtype \<Rightarrow> rvalue list" where
  "iter_not_found st t =
     map (\<lambda>ot. if ot = intType then V intType (PInt (int (length (objects st)))) else Zero ot)
       (outs t)"

text \<open>
  A call of the built function. What the closure returns goes through \<^verbatim>\<open>reflect.MakeFunc\<close>,
  which assigns each result to the declared output type.
\<close>

definition objectIter :: "state \<Rightarrow> rtype \<Rightarrow> rvalue list \<Rightarrow> panic + rvalue list" where
  "objectIter st t args =
     (case iter_start t args of
        Inl p \<Rightarrow> Inl p
      | Inr start \<Rightarrow>
          if start < 0 \<or> int (length (objects st)) < start
          then Inl (SliceBounds start (int (length (objects st))))
          else
            (case iter_loop (heap st) (butlast (outs t)) start (drop (nat start) (objects st)) of
               Inl p \<Rightarrow> Inl p
             | Inr (Some results) \<Rightarrow> assignAll results (outs t)
             | Inr None \<Rightarrow> assignAll (iter_not_found st t) (outs t)))"


subsection \<open>The dispatcher\<close>

text \<open>
  The inner loop \<^verbatim>\<open>for _, c := range ob.components\<close> of parameter resolution:
  \<^verbatim>\<open>cv.Type()\<close> panics on the zero Value of a nil component.
\<close>

fun find_assignable :: "rtype \<Rightarrow> iface list \<Rightarrow> panic + rvalue option" where
  "find_assignable t [] = Inr None"
| "find_assignable t (c # cs) =
     (case ValueOf c of
        None \<Rightarrow> Inl TypeOfZeroValue
      | Some cv \<Rightarrow> if AssignableTo (vtype cv) t then Inr (Some cv) else find_assignable t cs)"

text \<open>
  The loop \<^verbatim>\<open>tl\<close> over the parameter types, for one object: the arguments, or
  \<^verbatim>\<open>continue ol\<close> without a matching component (\<open>NoMatch\<close>), or \<^verbatim>\<open>continue ol\<close> after a
  failed \<^verbatim>\<open>makeObjectIter\<close> (\<open>IterFailed\<close> with the error's text), or a panic.
\<close>

datatype resolved = Args "rvalue list" | NoMatch | IterFailed string | Panicked panic

fun prepend :: "rvalue \<Rightarrow> resolved \<Rightarrow> resolved" where
  "prepend v (Args vs) = Args (v # vs)"
| "prepend v r = r"

fun resolve :: "Object \<Rightarrow> int \<Rightarrow> rtype list \<Rightarrow> resolved" where
  "resolve ob now [] = Args []"
| "resolve ob now (t # ts) =
     (if t = worldType then prepend (V worldType PWorld) (resolve ob now ts)
      else if t = entityType then prepend (V entityType (PUint (entity ob))) (resolve ob now ts)
      else if t = timeType then prepend (V timeType (PTime now)) (resolve ob now ts)
      else if Kind t = KFunc then
        (case makeObjectIter t of
           Inl err \<Rightarrow> IterFailed err
         | Inr it \<Rightarrow> prepend it (resolve ob now ts))
      else
        (case find_assignable t (components ob) of
           Inl p \<Rightarrow> Panicked p
         | Inr None \<Rightarrow> NoMatch
         | Inr (Some cv) \<Rightarrow> prepend cv (resolve ob now ts)))"

text \<open>
  \<^verbatim>\<open>strings.LastIndex(name, ".")\<close>, and the name handed to the error handler.
\<close>

fun LastIndex :: "string \<Rightarrow> char \<Rightarrow> int" where
  "LastIndex [] c = - 1"
| "LastIndex (x # xs) c =
     (let r = LastIndex xs c in if r > - 1 then r + 1 else if x = c then 0 else - 1)"

definition system_name :: "System \<Rightarrow> string" where
  "system_name s =
     (if Name s = [] then
        (let name = fname (Func s); dot = LastIndex name (CHR ''.'')
         in if dot > - 1 then drop (nat (dot + 1)) name else name)
      else Name s)"

text \<open>
  The loop \<^verbatim>\<open>rl\<close>: one result is stored in the first slot whose component's type it is
  assignable to (\<^verbatim>\<open>Index(i).Set(result)\<close> on a slot of type \<^verbatim>\<open>interface{}\<close>), or dropped.
\<close>

fun write_result :: "rvalue \<Rightarrow> iface list \<Rightarrow> panic + iface list" where
  "write_result r [] = Inr []"
| "write_result r (c # cs) =
     (case ValueOf c of
        None \<Rightarrow> Inl TypeOfZeroValue
      | Some cv \<Rightarrow>
          if AssignableTo (vtype r) (vtype cv) then Inr (Interface r # cs)
          else (case write_result r cs of Inl p \<Rightarrow> Inl p | Inr cs' \<Rightarrow> Inr (c # cs')))"

fun write_back :: "rvalue list \<Rightarrow> iface list \<Rightarrow> panic + iface list" where
  "write_back [] cs = Inr cs"
| "write_back (r # rs) cs =
     (case write_result r cs of Inl p \<Rightarrow> Inl p | Inr cs' \<Rightarrow> write_back rs cs')"

text \<open>
  The body of the loop \<^verbatim>\<open>ol\<close> for the object at address \<open>a\<close>. The call of the system's
  function is recorded in \<open>called\<close>.
\<close>

definition tick_object :: "System \<Rightarrow> int \<Rightarrow> state \<Rightarrow> addr \<Rightarrow> panic + state" where
  "tick_object s now st a =
     (case resolve (heap st a) now (ins (ftype (Func s))) of
        Panicked p \<Rightarrow> Inl p
      | NoMatch \<Rightarrow> Inr st
      | IterFailed err \<Rightarrow> Inr (st\<lparr>logged := logged st @ [''failed to make object iter: '' @ err]\<rparr>)
      | Args argValues \<Rightarrow>
          (case Call (Func s) argValues st of
             Inl p \<Rightarrow> Inl p
           | Inr results \<Rightarrow>
               (let st1 = st\<lparr>called := called st @ [(a, argValues)]\<rparr> in
                if length results = 0 then Inr st1
                else
                  (let v = last results;
                       results' = (if vtype v = errorType then butlast results else results);
                       st2 = (if vtype v = errorType \<and> \<not> IsNil v
                              then handleSystemError st1 (system_name s)
                                     (map Interface argValues) (Interface v)
                              else st1)
                   in case write_back results' (components (heap st2 a)) of
                        Inl p \<Rightarrow> Inl p
                      | Inr cs \<Rightarrow>
                          Inr (st2\<lparr>heap := (heap st2)(a := (heap st2 a)\<lparr>components := cs\<rparr>)\<rparr>)))))"

text \<open>
  The loop \<^verbatim>\<open>ol\<close> over the objects that the slice \<^verbatim>\<open>w.objects\<close> held when the loop started,
  and \<^verbatim>\<open>System.tick\<close>. Before the loop, \<^verbatim>\<open>f.Type().NumIn()\<close> panics when \<^verbatim>\<open>s.Func\<close> is not a
  function.
\<close>

fun tick_loop :: "System \<Rightarrow> int \<Rightarrow> addr list \<Rightarrow> state \<Rightarrow> panic + state" where
  "tick_loop s now [] st = Inr st"
| "tick_loop s now (a # as) st =
     (case tick_object s now st a of Inl p \<Rightarrow> Inl p | Inr st' \<Rightarrow> tick_loop s now as st')"

definition tick :: "System \<Rightarrow> state \<Rightarrow> int \<Rightarrow> panic + state" where
  "tick s st now =
     (if Kind (ftype (Func s)) \<noteq> KFunc then Inl (NumInOfNonFunc (ftype (Func s)))
      else tick_loop s now (objects st) st)"

text \<open>
  \<^verbatim>\<open>System.run\<close> for a context that is never cancelled: one sweep at the current time \<open>now\<close>
  without a ticker, and one sweep for each timestamp the ticker delivers before it is closed.
\<close>

fun run_ticks :: "System \<Rightarrow> int list \<Rightarrow> state \<Rightarrow> panic + state" where
  "run_ticks s [] st = Inr st"
| "run_ticks s (now # ts) st =
     (case tick s st now of Inl p \<Rightarrow> Inl p | Inr st' \<Rightarrow> run_ticks s ts st')"

definition run :: "System \<Rightarrow> state \<Rightarrow> int \<Rightarrow> panic + state" where
  "run s st now = (case Ticker s of None \<Rightarrow> tick s st now | Some ts \<Rightarrow> run_ticks s ts st)"


section \<open>The worlds of the tests\<close>

text \<open>
  The component types of the tests, \<^verbatim>\<open>type Position int\<close>, \<^verbatim>\<open>type Velocity int\<close>,
  \<^verbatim>\<open>type Player struct{}\<close> and \<^verbatim>\<open>type Target struct{}\<close>, and components of these types.
\<close>

definition PositionT :: rtype where
  "PositionT = Defined ''ecs_test.Position'' IntT []"

definition VelocityT :: rtype where
  "VelocityT = Defined ''ecs_test.Velocity'' IntT []"

definition PlayerT :: rtype where
  "PlayerT = Defined ''ecs_test.Player'' (StructT []) []"

definition TargetT :: rtype where
  "TargetT = Defined ''ecs_test.Target'' (StructT []) []"

definition Position :: "int \<Rightarrow> iface" where
  "Position x = Some (V PositionT (PInt x))"

definition Velocity :: "int \<Rightarrow> iface" where
  "Velocity x = Some (V VelocityT (PInt x))"

definition Player :: iface where
  "Player = Some (V PlayerT (PStruct []))"

definition Target :: iface where
  "Target = Some (V TargetT (PStruct []))"

text \<open>\<^verbatim>\<open>world.AddObject(ecs.NewObject(cs...))\<close>.\<close>

definition spawn :: "state \<Rightarrow> iface list \<Rightarrow> state" where
  "spawn st cs = (let (a, st') = NewObject st cs in snd (AddObject st' a))"

text \<open>A world with three objects, at the addresses 0, 1 and 2 with the entities 1, 2 and 3.\<close>

definition three_objects :: state where
  "three_objects = spawn (spawn (spawn NewWorld [Player, Position 1]) [Target, Position 5]) []"


text \<open>
  The invariant that \<^verbatim>\<open>NewObject\<close> keeps while the counter has not wrapped around: no
  object constructed so far has an entity above the counter.
\<close>

definition counted :: "state \<Rightarrow> bool" where
  "counted st = (\<forall>a < allocated st. unat (entity (heap st a)) \<le> unat (gid st))"

text \<open>
  A component in the sense of the specification is a typed data value: a non-nil
  \<^verbatim>\<open>interface{}\<close>, whose dynamic type is never an interface type.
\<close>

definition typed :: "iface \<Rightarrow> bool" where
  "typed c = (case c of None \<Rightarrow> False | Some v \<Rightarrow> Kind (vtype v) \<noteq> KInterface)"

text \<open>
  The parameter types that the dispatcher does not resolve against the components: the world
  handle, the entity, the timestamp and every function type.
\<close>

definition special :: "rtype \<Rightarrow> bool" where
  "special t = (t = worldType \<or> t = entityType \<or> t = timeType \<or> Kind t = KFunc)"

text \<open>
  What the specification says a query returns for the object \<open>ob\<close> found at index \<open>idx\<close>:
  the object satisfies the query when it has a component of every output type that is neither
  the index nor the entity, and each such output is the first component of that type.
\<close>

definition wants :: "Object \<Rightarrow> rtype \<Rightarrow> bool" where
  "wants ob ot = (ot = intType \<or> ot = entityType \<or>
                 list_ex (\<lambda>c. TypeOf c = Some ot) (components ob))"

definition satisfies :: "Object \<Rightarrow> rtype \<Rightarrow> bool" where
  "satisfies ob t = list_all (wants ob) (butlast (outs t))"

definition first_component :: "Object \<Rightarrow> rtype \<Rightarrow> rvalue" where
  "first_component ob ot = the (the (find (\<lambda>c. TypeOf c = Some ot) (components ob)))"

definition out_value :: "Object \<Rightarrow> int \<Rightarrow> rtype \<Rightarrow> rvalue" where
  "out_value ob idx ot =
     (if ot = intType then V intType (PInt idx)
      else if ot = entityType then V entityType (PUint (entity ob))
      else first_component ob ot)"

definition found_outputs :: "Object \<Rightarrow> int \<Rightarrow> rtype \<Rightarrow> rvalue list" where
  "found_outputs ob idx t = map (out_value ob idx) (butlast (outs t)) @ [V BoolT (PBool True)]"

text \<open>The function type \<^verbatim>\<open>func(int) (int, ecs.Entity, Target, bool)\<close> of \<^verbatim>\<open>TestQueryAll\<close>.\<close>

definition targetIterT :: rtype where
  "targetIterT = FuncT [intType] [intType, entityType, TargetT, BoolT]"

text \<open>
  The systems of the tests. \<^verbatim>\<open>cannotMove\<close> is the error \<^verbatim>\<open>errors.New("cannot move")\<close>;
  \<open>failing\<close> returns only this error, \<open>stuck\<close> is the \<^verbatim>\<open>movement\<close> of \<^verbatim>\<open>TestError\<close>, which
  returns \<^verbatim>\<open>Position(0)\<close> with it, and \<open>movement\<close> is the one of \<^verbatim>\<open>TestMovement\<close>.
\<close>

definition errorStringT :: rtype where
  "errorStringT = PtrT (Defined ''errors.errorString'' (StructT [StringT]) [])"

definition cannotMove :: payload where
  "cannotMove = PDyn errorStringT (PStr ''cannot move'')"

definition failing :: System where
  "failing = \<lparr>Func = \<lparr>ftype = FuncT [PositionT, VelocityT] [errorType],
                       fname = ''ecs_test.failing'',
                       body = (\<lambda>args st i. cannotMove)\<rparr>,
               Name = ''movement'', Ticker = None\<rparr>"

definition stuck :: System where
  "stuck = \<lparr>Func = \<lparr>ftype = FuncT [PositionT, VelocityT] [PositionT, errorType],
                     fname = ''ecs_test.TestError.func1'',
                     body = (\<lambda>args st i. if i = 0 then PInt 0 else cannotMove)\<rparr>,
             Name = ''movement'', Ticker = None\<rparr>"

definition movement :: System where
  "movement = \<lparr>Func = \<lparr>ftype = FuncT [PositionT, VelocityT] [PositionT],
                        fname = ''ecs_test.TestMovement.func1'',
                        body = (\<lambda>args st i. case args of
                                  [V t1 (PInt p), V t2 (PInt v)] \<Rightarrow> PInt (p + v)
                                | _ \<Rightarrow> PNil)\<rparr>,
                Name = [], Ticker = None\<rparr>"

text \<open>The world of \<^verbatim>\<open>TestError\<close>: one object with \<^verbatim>\<open>Position(1)\<close> and \<^verbatim>\<open>Velocity(2)\<close>.\<close>

definition one_object :: state where
  "one_object = spawn (NewWorld\<lparr>OnError := True\<rparr>) [Position 1, Velocity 2]"

text \<open>A world whose only object holds two components of type Position.\<close>

definition two_positions :: state where
  "two_positions = spawn NewWorld [Velocity 2, Position 1, Position 7]"

text \<open>
  A system whose only parameter is a function type that \<^verbatim>\<open>makeObjectIter\<close> rejects (one
  output), and one whose parameters are the world, the entity and the timestamp.
\<close>

definition lonely :: System where
  "lonely = \<lparr>Func = \<lparr>ftype = FuncT [FuncT [] [BoolT]] [],
                      fname = ''ecs_test.lonely'',
                      body = (\<lambda>args st i. PNil)\<rparr>,
              Name = [], Ticker = None\<rparr>"

definition observer :: System where
  "observer = \<lparr>Func = \<lparr>ftype = FuncT [worldType, entityType, timeType] [],
                        fname = ''ecs_test.observer'',
                        body = (\<lambda>args st i. PNil)\<rparr>,
                Name = [], Ticker = None\<rparr>"

text \<open>A world with an error handler and two objects that can move.\<close>

definition two_movers :: state where
  "two_movers =
     spawn (spawn (NewWorld\<lparr>OnError := True\<rparr>) [Position 1, Velocity 2]) [Position 5, Velocity 1]"

text \<open>
  A system over a player and a query whose function type has one output only.
\<close>

definition bad_query :: System where
  "bad_query = \<lparr>Func = \<lparr>ftype = FuncT [PlayerT, FuncT [] [BoolT]] [],
                         fname = ''ecs_test.badQuery'',
                         body = (\<lambda>args st i. PNil)\<rparr>,
                 Name = [], Ticker = None\<rparr>"

text \<open>
  What the loop \<^verbatim>\<open>tl\<close> stores for a special parameter: the world handle, the entity of the
  object, the timestamp of the tick, or the query iterator built for the function type.
\<close>

definition special_arg :: "Object \<Rightarrow> int \<Rightarrow> rtype \<Rightarrow> rvalue" where
  "special_arg ob now t =
     (if t = worldType then V worldType PWorld
      else if t = entityType then V entityType (PUint (entity ob))
      else if t = timeType then V timeType (PTime now)
      else V t PIter)"

text \<open>A parameter type for which \<^verbatim>\<open>makeObjectIter\<close> is not called, or succeeds.\<close>

definition accepted :: "rtype \<Rightarrow> bool" where
  "accepted t = (Kind t = KFunc \<longrightarrow> (\<exists>it. makeObjectIter t = Inr it))"

text \<open>A system over an entity and a query whose function type has one output only.\<close>

definition watcher :: System where
  "watcher = \<lparr>Func = \<lparr>ftype = FuncT [entityType, FuncT [] [BoolT]] [],
                       fname = ''ecs_test.watcher'',
                       body = (\<lambda>args st i. PNil)\<rparr>,
               Name = [], Ticker = None\<rparr>"

section \<open>A sweep whose function removes objects\<close>

text \<open>
  A function that is handed the world can call \<^verbatim>\<open>world.RemoveObject\<close> while the sweep runs, as
  \<^verbatim>\<open>selfDestruct\<close> of \<^verbatim>\<open>TestSelfDestruct\<close> does. The loop \<^verbatim>\<open>ol\<close> ranges over the slice
  \<^verbatim>\<open>w.objects\<close> as it was when the loop started: it keeps that length and reads element \<open>i\<close>
  of the backing array as it is in iteration \<open>i\<close>. \<^verbatim>\<open>RemoveObject\<close> moves the elements behind
  the removed one down by one place in that same array, and shortens \<^verbatim>\<open>w.objects\<close>.

  \<open>carrier_index\<close> is the index at which the loop of \<^verbatim>\<open>RemoveObject\<close> stops, and
  \<open>remove_in_place\<close> is \<^verbatim>\<open>RemoveObject\<close> together with its effect on the array \<open>arr\<close> of the
  running loop.
\<close>

fun carrier_index :: "(addr \<Rightarrow> Object) \<Rightarrow> Entity \<Rightarrow> addr list \<Rightarrow> nat option" where
  "carrier_index h e [] = None"
| "carrier_index h e (ob # obs) =
     (if entity (h ob) = e then Some 0 else map_option Suc (carrier_index h e obs))"

fun remove_in_place :: "Entity \<Rightarrow> addr list \<times> state \<Rightarrow> addr list \<times> state" where
  "remove_in_place e (arr, st) =
     (case carrier_index (heap st) e (objects st) of
        None \<Rightarrow> (arr, st)
      | Some i \<Rightarrow> (shift_down arr (length (objects st)) i, RemoveObject st e))"

text \<open>
  One iteration of \<^verbatim>\<open>ol\<close> for a function that, when it is called with the arguments \<open>args\<close>
  in the state \<open>st\<close>, removes the entities \<open>rm args st\<close> in this order. The removals change
  \<^verbatim>\<open>w.objects\<close> only, which the rest of the iteration neither reads nor writes.
\<close>

fun removing_step ::
  "(rvalue list \<Rightarrow> state \<Rightarrow> Entity list) \<Rightarrow> System \<Rightarrow> int \<Rightarrow> addr list \<times> state \<Rightarrow> addr
     \<Rightarrow> panic + addr list \<times> state" where
  "removing_step rm s now (arr, st) a =
     (case tick_object s now st a of
        Inl p \<Rightarrow> Inl p
      | Inr st' \<Rightarrow>
          (case resolve (heap st a) now (ins (ftype (Func s))) of
             Args args \<Rightarrow> Inr (fold remove_in_place (rm args st) (arr, st'))
           | _ \<Rightarrow> Inr (arr, st')))"

text \<open>The loop \<^verbatim>\<open>ol\<close> over the indices of the slice as it was, reading the array as it is.\<close>

fun removing_loop ::
  "(rvalue list \<Rightarrow> state \<Rightarrow> Entity list) \<Rightarrow> System \<Rightarrow> int \<Rightarrow> nat list \<Rightarrow> addr list \<times> state
     \<Rightarrow> panic + addr list \<times> state" where
  "removing_loop rm s now [] (arr, st) = Inr (arr, st)"
| "removing_loop rm s now (i # is) (arr, st) =
     (case removing_step rm s now (arr, st) (arr ! i) of
        Inl p \<Rightarrow> Inl p
      | Inr x \<Rightarrow> removing_loop rm s now is x)"

definition tick_removing ::
  "(rvalue list \<Rightarrow> state \<Rightarrow> Entity list) \<Rightarrow> System \<Rightarrow> state \<Rightarrow> int \<Rightarrow> panic + state" where
  "tick_removing rm s st now =
     (if Kind (ftype (Func s)) \<noteq> KFunc then Inl (NumInOfNonFunc (ftype (Func s)))
      else (case removing_loop rm s now [0..<length (objects st)] (objects st, st) of
              Inl p \<Rightarrow> Inl p
            | Inr (arr, st') \<Rightarrow> Inr st'))"

text \<open>
  A system over the world and the entity whose function removes its own entity, the function
  of \<^verbatim>\<open>TestSelfDestruct\<close> without its component parameter:
  \<^verbatim>\<open>func(world *ecs.World, entity ecs.Entity) { world.RemoveObject(entity) }\<close>.
\<close>

definition self_destruct :: System where
  "self_destruct = \<lparr>Func = \<lparr>ftype = FuncT [worldType, entityType] [],
                             fname = ''ecs_test.selfDestruct'',
                             body = (\<lambda>args st i. PNil)\<rparr>,
                     Name = [], Ticker = None\<rparr>"

definition removes_itself :: "rvalue list \<Rightarrow> state \<Rightarrow> Entity list" where
  "removes_itself args st = (case args of [w, V t (PUint e)] \<Rightarrow> [e] | _ \<Rightarrow> [])"

section \<open>Properties of the world's collection\<close>

lemma three_objects_eq:
  "objects three_objects = [0, 1, 2]"
  "entity (heap three_objects 0) = 1"
  "entity (heap three_objects (Suc 0)) = 2"
  "entity (heap three_objects 2) = 3"
  "components (heap three_objects 0) = [Player, Position 1]"
  "components (heap three_objects (Suc 0)) = [Target, Position 5]"
  "components (heap three_objects 2) = []"
  by (simp_all add: three_objects_def spawn_def NewObject_def AddObject_def NewWorld_def)

lemma RemoveObject_loop_absent:
  "(\<And>j. i \<le> j \<Longrightarrow> j < length obs \<Longrightarrow> entity (h (obs ! j)) \<noteq> e) \<Longrightarrow>
   RemoveObject_loop h e obs i = obs"
proof (induction h e obs i rule: RemoveObject_loop.induct)
  case (1 h e obs i)
  show ?case
  proof (cases "i < length obs")
    case True
    with "1.prems" have ne: "entity (h (obs ! i)) \<noteq> e" by simp
    have "RemoveObject_loop h e obs (i + 1) = obs"
      using True ne "1.prems" by (intro "1.IH") auto
    with True ne show ?thesis by (subst RemoveObject_loop.simps) simp
  next
    case False
    then show ?thesis by (subst RemoveObject_loop.simps) simp
  qed
qed

lemma RemoveObject_loop_first:
  "i \<le> n \<Longrightarrow> n < length obs \<Longrightarrow> entity (h (obs ! n)) = e \<Longrightarrow>
   (\<And>j. i \<le> j \<Longrightarrow> j < n \<Longrightarrow> entity (h (obs ! j)) \<noteq> e) \<Longrightarrow>
   RemoveObject_loop h e obs i = take n obs @ drop (n + 1) obs"
proof (induction h e obs i rule: RemoveObject_loop.induct)
  case (1 h e obs i)
  from "1.prems" have il: "i < length obs" by simp
  show ?case
  proof (cases "i = n")
    case True
    with il "1.prems" show ?thesis by (subst RemoveObject_loop.simps) simp
  next
    case False
    with "1.prems" have lt: "i < n" by simp
    with "1.prems" have ne: "entity (h (obs ! i)) \<noteq> e" by simp
    have "RemoveObject_loop h e obs (i + 1) = take n obs @ drop (n + 1) obs"
      using il ne lt "1.prems" by (intro "1.IH") auto
    with il ne show ?thesis by (subst RemoveObject_loop.simps) simp
  qed
qed

declare RemoveObject_loop.simps [simp del]

text \<open>
  Claim C9. \<^verbatim>\<open>World.RemoveObject\<close> with an entity that no object of the collection carries
  leaves the state as it is. With an entity that an object carries, it removes the first such
  object: when the collection is \<open>pre @ a # post\<close>, \<open>a\<close> carries the entity and no object of
  \<open>pre\<close> does, the collection becomes \<open>pre @ post\<close> and nothing else changes.
\<close>

theorem RemoveObject_frame:
  "((\<forall>a \<in> set (objects st). entity (heap st a) \<noteq> e) \<longrightarrow> RemoveObject st e = st) \<and>
   (objects st = pre @ a # post \<and> entity (heap st a) = e \<and>
      (\<forall>b \<in> set pre. entity (heap st b) \<noteq> e)
    \<longrightarrow> RemoveObject st e = st\<lparr>objects := pre @ post\<rparr>)"
proof (intro conjI impI)
  assume "\<forall>a \<in> set (objects st). entity (heap st a) \<noteq> e"
  then have "RemoveObject_loop (heap st) e (objects st) 0 = objects st"
    by (intro RemoveObject_loop_absent) simp
  then show "RemoveObject st e = st" by (simp add: RemoveObject_def)
next
  assume h: "objects st = pre @ a # post \<and> entity (heap st a) = e \<and>
      (\<forall>b \<in> set pre. entity (heap st b) \<noteq> e)"
  have "RemoveObject_loop (heap st) e (objects st) 0 =
          take (length pre) (objects st) @ drop (length pre + 1) (objects st)"
  proof (rule RemoveObject_loop_first)
    show "0 \<le> length pre" by simp
    show "length pre < length (objects st)" using h by simp
    show "entity (heap st (objects st ! length pre)) = e" using h by simp
    fix j assume "j < length pre"
    then show "entity (heap st (objects st ! j)) \<noteq> e" using h by (simp add: nth_append)
  qed
  then show "RemoveObject st e = st\<lparr>objects := pre @ post\<rparr>"
    using h by (simp add: RemoveObject_def)
qed

text \<open>
  In the world of three objects, no object carries the entity 7, and the object at address 1
  is the first (and only) one that carries the entity 2.
\<close>

theorem RemoveObject_frame_witness:
  "list_all (\<lambda>a. entity (heap three_objects a) \<noteq> 7) (objects three_objects) \<and>
   RemoveObject three_objects 7 = three_objects \<and>
   objects three_objects = [0] @ 1 # [2] \<and>
   entity (heap three_objects 1) = 2 \<and>
   entity (heap three_objects 0) \<noteq> 2 \<and>
   RemoveObject three_objects 2 = three_objects\<lparr>objects := [0] @ [2]\<rparr>"
  using RemoveObject_frame [of three_objects 7 "[0]" 1 "[2]"]
    RemoveObject_frame [of three_objects 2 "[0]" 1 "[2]"]
  by (simp add: three_objects_eq)

lemma GetObject_loop_append:
  "GetObject_loop h e (xs @ ys) =
     (case GetObject_loop h e xs of Some a \<Rightarrow> Some a | None \<Rightarrow> GetObject_loop h e ys)"
  by (induction xs) auto

lemma GetObject_loop_only:
  "(\<And>b. b \<in> set xs \<Longrightarrow> entity (h b) = e \<Longrightarrow> b = a) \<Longrightarrow>
   GetObject_loop h e xs = (if a \<in> set xs \<and> entity (h a) = e then Some a else None)"
  by (induction xs) auto

text \<open>
  Claim C10. \<^verbatim>\<open>World.AddObject\<close> returns the entity stored in the object, and
  \<^verbatim>\<open>World.GetObject\<close> with that entity then returns the pointer to that very object, provided
  no other object of the world carries the same entity.
\<close>

theorem AddObject_GetObject:
  "(\<forall>b \<in> set (objects st). b \<noteq> ob \<longrightarrow> entity (heap st b) \<noteq> entity (heap st ob)) \<Longrightarrow>
   fst (AddObject st ob) = entity (heap st ob) \<and>
   GetObject (snd (AddObject st ob)) (fst (AddObject st ob)) = Some ob"
proof -
  assume u: "\<forall>b \<in> set (objects st). b \<noteq> ob \<longrightarrow> entity (heap st b) \<noteq> entity (heap st ob)"
  have "GetObject_loop (heap st) (entity (heap st ob)) (objects st) =
          (if ob \<in> set (objects st) \<and> entity (heap st ob) = entity (heap st ob)
           then Some ob else None)"
    using u by (intro GetObject_loop_only) auto
  then show ?thesis
    by (simp add: AddObject_def GetObject_def GetObject_loop_append)
qed

text \<open>
  A fourth object, constructed by \<^verbatim>\<open>NewObject\<close> in the world of three objects, gets the
  entity 4 and the address 3, and is found again under its entity once added.
\<close>

theorem AddObject_GetObject_witness:
  "fst (NewObject three_objects [Position 0]) = 3 \<and>
   list_all (\<lambda>b. entity (heap (snd (NewObject three_objects [Position 0])) b) \<noteq> 4)
     (objects (snd (NewObject three_objects [Position 0]))) \<and>
   fst (AddObject (snd (NewObject three_objects [Position 0])) 3) = 4 \<and>
   GetObject (snd (AddObject (snd (NewObject three_objects [Position 0])) 3)) 4 = Some 3"
proof -
  let ?st = "snd (NewObject three_objects [Position 0])"
  have al: "allocated three_objects = 3" "gid three_objects = 3"
    by (simp_all add: three_objects_def spawn_def NewObject_def AddObject_def NewWorld_def)
  have st: "objects ?st = [0, 1, 2]" "entity (heap ?st 0) = 1" "entity (heap ?st (Suc 0)) = 2"
    "entity (heap ?st 2) = 3" "entity (heap ?st 3) = 4" "fst (NewObject three_objects [Position 0]) = 3"
    by (simp_all add: NewObject_def Let_def al three_objects_eq)
  have "\<forall>b \<in> set (objects ?st). b \<noteq> 3 \<longrightarrow> entity (heap ?st b) \<noteq> entity (heap ?st 3)"
    by (simp add: st)
  note rt = AddObject_GetObject [OF this]
  have r1: "fst (AddObject ?st 3) = 4"
    using rt [THEN conjunct1] by (simp add: st)
  have "GetObject (snd (AddObject ?st 3)) 4 = Some 3"
    using rt [THEN conjunct2] unfolding r1 .
  with r1 show ?thesis by (simp add: st)
qed

text \<open>
  The proviso of claim C10 holds for an object that \<^verbatim>\<open>NewObject\<close> constructs, as long as the
  64-bit counter has not reached its last value: the new entity is above the entity of every
  object constructed before.
\<close>

lemma NewObject_fresh_entity:
  assumes inv: "counted st" and room: "unat (gid st) < 2 ^ 64 - 1"
    and new: "NewObject st cs = (ob, st')"
  shows "ob = allocated st \<and> entity (heap st' ob) = gid st + 1 \<and>
         (\<forall>a < allocated st. entity (heap st' a) \<noteq> entity (heap st' ob)) \<and>
         counted st'"
proof -
  have g: "unat (gid st + 1) = unat (gid st) + 1"
    using room by (simp add: unat_add_lem [THEN iffD1])
  from new have ob: "ob = allocated st"
    and st': "st' = st\<lparr>heap := (heap st)(allocated st := \<lparr>entity = gid st + 1, components = cs\<rparr>),
                allocated := allocated st + 1, gid := gid st + 1\<rparr>"
    by (auto simp: NewObject_def Let_def)
  have old: "\<And>a. a < allocated st \<Longrightarrow> heap st' a = heap st a"
    by (simp add: st')
  have e: "entity (heap st' ob) = gid st + 1" by (simp add: st' ob)
  have "\<And>a. a < allocated st \<Longrightarrow> entity (heap st' a) \<noteq> entity (heap st' ob)"
  proof
    fix a assume a: "a < allocated st" and eq: "entity (heap st' a) = entity (heap st' ob)"
    from inv a have "unat (entity (heap st a)) \<le> unat (gid st)" by (simp add: counted_def)
    with eq old [OF a] e g show False by simp
  qed
  moreover have "counted st'"
    unfolding counted_def
  proof (intro allI impI)
    fix a assume "a < allocated st'"
    then have "a < allocated st \<or> a = allocated st" by (auto simp: st')
    then show "unat (entity (heap st' a)) \<le> unat (gid st')"
    proof
      assume a: "a < allocated st"
      with inv have "unat (entity (heap st a)) \<le> unat (gid st)" by (simp add: counted_def)
      with a g show ?thesis by (simp add: st')
    next
      assume "a = allocated st"
      then show ?thesis by (simp add: st')
    qed
  qed
  ultimately show ?thesis using ob e by blast
qed

section \<open>Properties of an object's components\<close>

text \<open>
  Claim C3. \<^verbatim>\<open>Object.RemoveComponent\<close> does not remove every component of the type when the
  object holds two of them: the loop goes on over the slice as it was, while each removal
  shortens \<^verbatim>\<open>ob.components\<close>. With the two duplicates at the end, the second removal takes
  \<^verbatim>\<open>ob.components[2:]\<close> of a slice of length 1 and panics; with a component behind them, the
  second duplicate is skipped and stays.
\<close>

theorem RemoveComponent_duplicates:
  "RemoveComponent \<lparr>entity = 1, components = [Velocity 1, Velocity 2]\<rparr> (Velocity 0) =
     Inl (SliceBounds 2 1) \<and>
   RemoveComponent \<lparr>entity = 1, components = [Velocity 1, Velocity 2, Position 3]\<rparr> (Velocity 0) =
     Inr \<lparr>entity = 1, components = [Velocity 2, Position 3]\<rparr>"
  by (simp add: RemoveComponent_def Velocity_def Position_def PositionT_def VelocityT_def
      TypeOf_def shift_down_def)


declare RemoveComponent_loop.simps [simp del]

lemma RemoveComponent_loop_no_match:
  "(\<And>j. i \<le> j \<Longrightarrow> j < length arr \<Longrightarrow> TypeOf (arr ! j) \<noteq> t) \<Longrightarrow>
   RemoveComponent_loop t arr n i = Inr (take n arr)"
proof (induction t arr n i rule: RemoveComponent_loop.induct)
  case (1 t arr n i)
  show ?case
  proof (cases "i < length arr")
    case True
    with "1.prems" have ne: "TypeOf (arr ! i) \<noteq> t" by simp
    have "RemoveComponent_loop t arr n (i + 1) = Inr (take n arr)"
      using True ne "1.prems" by (intro "1.IH"(2)) auto
    with True ne show ?thesis by (subst RemoveComponent_loop.simps) simp
  next
    case False
    then show ?thesis by (subst RemoveComponent_loop.simps) simp
  qed
qed

lemma shift_down_nth:
  "j < length arr \<Longrightarrow>
   shift_down arr n i ! j = (if i \<le> j \<and> j + 1 < n then arr ! (j + 1) else arr ! j)"
  by (simp add: shift_down_def)

lemma length_shift_down: "length (shift_down arr n i) = length arr"
  by (simp add: shift_down_def)

lemma take_shift_down:
  "m < length arr \<Longrightarrow>
   take (length arr - 1) (shift_down arr (length arr) m) = take m arr @ drop (m + 1) arr"
  by (rule nth_equalityI) (auto simp: shift_down_nth length_shift_down nth_append)

lemma RemoveComponent_loop_one_match:
  "i \<le> m \<Longrightarrow> m < length arr \<Longrightarrow> TypeOf (arr ! m) = t \<Longrightarrow>
   (\<And>j. i \<le> j \<Longrightarrow> j < length arr \<Longrightarrow> j \<noteq> m \<Longrightarrow> TypeOf (arr ! j) \<noteq> t) \<Longrightarrow>
   RemoveComponent_loop t arr (length arr) i = Inr (take m arr @ drop (m + 1) arr)"
proof (induction "m - i" arbitrary: i)
  case 0
  then have im: "i = m" by simp
  let ?arr' = "shift_down arr (length arr) m"
  have "RemoveComponent_loop t ?arr' (length arr - 1) (m + 1) = Inr (take (length arr - 1) ?arr')"
  proof (rule RemoveComponent_loop_no_match)
    fix j assume j: "m + 1 \<le> j" "j < length ?arr'"
    then have "j < length arr" by (simp add: length_shift_down)
    with j "0.prems" show "TypeOf (?arr' ! j) \<noteq> t"
      by (auto simp: shift_down_nth im)
  qed
  then have "RemoveComponent_loop t ?arr' (length arr - 1) (m + 1) =
      Inr (take m arr @ drop (m + 1) arr)"
    using "0.prems" by (simp only: take_shift_down)
  with "0.prems" im show ?case
    by (subst RemoveComponent_loop.simps) simp
next
  case (Suc d)
  then have lt: "i < m" by simp
  with Suc.prems have ne: "TypeOf (arr ! i) \<noteq> t" by simp
  have "RemoveComponent_loop t arr (length arr) (i + 1) = Inr (take m arr @ drop (m + 1) arr)"
    using Suc.hyps(2) lt Suc.prems by (intro Suc.hyps(1)) auto
  with lt ne Suc.prems show ?case
    by (subst RemoveComponent_loop.simps) simp
qed

text \<open>
  With at most one component of the representative's type, \<^verbatim>\<open>Object.RemoveComponent\<close> removes
  it and keeps the other components in their order.
\<close>

lemma RemoveComponent_at_most_one:
  "((\<forall>c \<in> set (components ob). TypeOf c \<noteq> TypeOf rep) \<longrightarrow> RemoveComponent ob rep = Inr ob) \<and>
   (components ob = pre @ c # post \<and> TypeOf c = TypeOf rep \<and>
      (\<forall>x \<in> set pre \<union> set post. TypeOf x \<noteq> TypeOf rep)
    \<longrightarrow> RemoveComponent ob rep = Inr (ob\<lparr>components := pre @ post\<rparr>))"
proof (intro conjI impI)
  assume "\<forall>c \<in> set (components ob). TypeOf c \<noteq> TypeOf rep"
  then have "RemoveComponent_loop (TypeOf rep) (components ob) (length (components ob)) 0 =
      Inr (take (length (components ob)) (components ob))"
    by (intro RemoveComponent_loop_no_match) simp
  then show "RemoveComponent ob rep = Inr ob" by (simp add: RemoveComponent_def)
next
  assume h: "components ob = pre @ c # post \<and> TypeOf c = TypeOf rep \<and>
      (\<forall>x \<in> set pre \<union> set post. TypeOf x \<noteq> TypeOf rep)"
  have "RemoveComponent_loop (TypeOf rep) (components ob) (length (components ob)) 0 =
      Inr (take (length pre) (components ob) @ drop (length pre + 1) (components ob))"
  proof (rule RemoveComponent_loop_one_match)
    show "0 \<le> length pre" by simp
    show "length pre < length (components ob)" using h by simp
    show "TypeOf (components ob ! length pre) = TypeOf rep" using h by simp
    fix j assume j: "j < length (components ob)" "j \<noteq> length pre"
    show "TypeOf (components ob ! j) \<noteq> TypeOf rep"
    proof (cases "j < length pre")
      case True
      with h show ?thesis by (simp add: nth_append)
    next
      case False
      with j have "j - length pre - 1 < length post" "components ob ! j = post ! (j - length pre - 1)"
        using h by (auto simp: nth_append nth_Cons')
      with h show ?thesis by (metis UnCI nth_mem)
    qed
  qed
  then show "RemoveComponent ob rep = Inr (ob\<lparr>components := pre @ post\<rparr>)"
    using h by (simp add: RemoveComponent_def)
qed

section \<open>Properties of the dispatcher\<close>

lemmas type_defs = PositionT_def VelocityT_def PlayerT_def TargetT_def
  worldType_def entityType_def timeType_def errorType_def intType_def errorStringT_def

lemmas reflect_defs = AssignableTo_def directlyAssignable_def implements_def assignTo_def
  ValueOf_def TypeOf_def Interface_def IsNil_def NumIn_def NumOut_def

lemma one_object_eq:
  "objects one_object = [0]"
  "components (heap one_object 0) = [Position 1, Velocity 2]"
  "entity (heap one_object 0) = 1"
  "OnError one_object"
  "handled one_object = []"
  "logged one_object = []"
  "called one_object = []"
  by (simp_all add: one_object_def spawn_def NewObject_def AddObject_def NewWorld_def)

text \<open>
  Claim C1. In a world whose only object holds \<^verbatim>\<open>Position(1)\<close> and \<^verbatim>\<open>Velocity(2)\<close> and whose
  \<^verbatim>\<open>OnError\<close> is set, running a one-shot system with the parameters (Position, Velocity), a name
  override and the error as its only result, which is not nil, calls the function once and the
  handler once, with the name override, the arguments \<^verbatim>\<open>[Position(1), Velocity(2)]\<close> and the
  error; nothing else of the state changes, so the object keeps its components.
\<close>

theorem error_only_system:
  assumes obs: "objects st = [a]"
    and cs: "components (heap st a) = [Position 1, Velocity 2]"
    and h: "OnError st"
    and ft: "ftype (Func s) = FuncT [PositionT, VelocityT] [errorType]"
    and nm: "Name s \<noteq> []"
    and tk: "Ticker s = None"
    and err: "body (Func s) [V PositionT (PInt 1), V VelocityT (PInt 2)] st 0 \<noteq> PNil"
  shows "run s st now =
     Inr (st\<lparr>handled := handled st @
                [(Name s, [Position 1, Velocity 2],
                  Interface (V errorType
                    (body (Func s) [V PositionT (PInt 1), V VelocityT (PInt 2)] st 0)))],
             called := called st @ [(a, [V PositionT (PInt 1), V VelocityT (PInt 2)])]\<rparr>)"
proof -
  let ?args = "[V PositionT (PInt 1), V VelocityT (PInt 2)]"
  have "resolve (heap st a) now [PositionT, VelocityT] = Args ?args"
    by (simp add: cs Position_def Velocity_def type_defs reflect_defs)
  then have res: "resolve (heap st a) now (ins (ftype (Func s))) = Args ?args"
    by (simp only: ft ins.simps)
  have call: "Call (Func s) ?args st = Inr [V errorType (body (Func s) ?args st 0)]"
    by (simp add: Call_def ft reflect_defs)
  have nil: "\<not> IsNil (V errorType (body (Func s) ?args st 0))"
    using err by (simp add: IsNil_def)
  have ifs: "Interface (V PositionT (PInt 1)) = Position 1"
    "Interface (V VelocityT (PInt 2)) = Velocity 2"
    by (simp_all add: Interface_def Position_def Velocity_def type_defs)
  have "tick_object s now st a = Inr (st\<lparr>handled := handled st @
                [(Name s, [Position 1, Velocity 2],
                  Interface (V errorType (body (Func s) ?args st 0)))],
             called := called st @ [(a, ?args)]\<rparr>)"
    unfolding tick_object_def
    by (simp add: res call nil ifs handleSystemError_def h system_name_def nm cs Let_def
        del: resolve.simps)
  then show ?thesis
    by (simp add: run_def tk tick_def obs ft)
qed

text \<open>
  The system \<open>failing\<close> in the world of \<^verbatim>\<open>TestError\<close>: the handler receives the name
  \<^verbatim>\<open>movement\<close>, and the position of the object is still 1.
\<close>

theorem error_only_system_witness:
  "objects one_object = [0] \<and>
   components (heap one_object 0) = [Position 1, Velocity 2] \<and>
   OnError one_object \<and>
   run failing one_object 0 =
     Inr (one_object\<lparr>handled := [(''movement'', [Position 1, Velocity 2],
                                  Some (V errorStringT (PStr ''cannot move'')))],
                     called := [(0, [V PositionT (PInt 1), V VelocityT (PInt 2)])]\<rparr>) \<and>
   Component (heap one_object 0) (Position 0) = Position 1"
proof -
  have "run failing one_object 0 =
     Inr (one_object\<lparr>handled := handled one_object @
                [(Name failing, [Position 1, Velocity 2],
                  Interface (V errorType
                    (body (Func failing) [V PositionT (PInt 1), V VelocityT (PInt 2)] one_object 0)))],
             called := called one_object @ [(0, [V PositionT (PInt 1), V VelocityT (PInt 2)])]\<rparr>)"
    by (rule error_only_system) (simp_all add: one_object_eq failing_def cannotMove_def)
  moreover have "Interface (V errorType (body (Func failing)
       [V PositionT (PInt 1), V VelocityT (PInt 2)] one_object 0)) =
       Some (V errorStringT (PStr ''cannot move''))"
    by (simp add: failing_def cannotMove_def Interface_def errorType_def)
  moreover have "Component (heap one_object 0) (Position 0) = Position 1"
    by (simp add: Component_def one_object_eq Position_def Velocity_def TypeOf_def type_defs)
  ultimately show ?thesis
    by (simp add: one_object_eq failing_def)
qed


lemma find_assignable_first:
  "(\<forall>c \<in> set pre. \<exists>v. c = Some v \<and> \<not> AssignableTo (vtype v) t) \<Longrightarrow>
   AssignableTo (vtype cv) t \<Longrightarrow>
   find_assignable t (pre @ Some cv # post) = Inr (Some cv)"
  by (induction pre) (auto simp: ValueOf_def)

lemma find_assignable_none:
  "(\<forall>c \<in> set cs. \<exists>v. c = Some v \<and> \<not> AssignableTo (vtype v) t) \<Longrightarrow>
   find_assignable t cs = Inr None"
  by (induction cs) (auto simp: ValueOf_def)

lemma find_assignable_no_panic:
  "None \<notin> set cs \<Longrightarrow> \<exists>r. find_assignable t cs = Inr r"
proof (induction cs)
  case Nil
  then show ?case by simp
next
  case (Cons c cs)
  then obtain v where "c = Some v" by (cases c) auto
  with Cons show ?case by (auto simp: ValueOf_def)
qed

lemma find_assignable_Some:
  "find_assignable t cs = Inr (Some cv) \<Longrightarrow> AssignableTo (vtype cv) t \<and> Some cv \<in> set cs"
  by (induction cs) (auto simp: ValueOf_def split: option.splits if_splits)

lemma write_result_first:
  "(\<forall>c \<in> set pre. \<exists>v. c = Some v \<and> \<not> AssignableTo (vtype r) (vtype v)) \<Longrightarrow>
   AssignableTo (vtype r) (vtype cv) \<Longrightarrow>
   write_result r (pre @ Some cv # post) = Inr (pre @ Interface r # post)"
  by (induction pre) (auto simp: ValueOf_def)

lemma write_result_none:
  "(\<forall>c \<in> set cs. \<exists>v. c = Some v \<and> \<not> AssignableTo (vtype r) (vtype v)) \<Longrightarrow>
   write_result r cs = Inr cs"
  by (induction cs) (auto simp: ValueOf_def)

lemma assignable_typed:
  "typed (Some cv) \<Longrightarrow> AssignableTo (vtype r) (vtype cv) \<Longrightarrow> Interface r = Some r \<and> typed (Some r)"
  by (auto simp: typed_def AssignableTo_def directlyAssignable_def implements_def Interface_def
      split: if_splits)

lemma write_result_typed:
  "list_all typed cs \<Longrightarrow>
   \<exists>cs'. write_result r cs = Inr cs' \<and> list_all typed cs' \<and> length cs' = length cs"
proof (induction cs)
  case Nil
  then show ?case by simp
next
  case (Cons c cs)
  then obtain cv where c: "c = Some cv" and t: "typed (Some cv)"
    by (cases c) (auto simp: typed_def)
  from Cons obtain cs' where r: "write_result r cs = Inr cs'" "list_all typed cs'"
    "length cs' = length cs" by auto
  show ?case
  proof (cases "AssignableTo (vtype r) (vtype cv)")
    case True
    with assignable_typed [OF t True] Cons.prems c show ?thesis
      by (simp add: ValueOf_def)
  next
    case False
    with r t c show ?thesis by (simp add: ValueOf_def)
  qed
qed

lemma write_back_typed:
  "list_all typed cs \<Longrightarrow>
   \<exists>cs'. write_back rs cs = Inr cs' \<and> list_all typed cs' \<and> length cs' = length cs"
proof (induction rs arbitrary: cs)
  case Nil
  then show ?case by simp
next
  case (Cons r rs)
  from write_result_typed [OF Cons.prems, of r] obtain c1 where
    c1: "write_result r cs = Inr c1" "list_all typed c1" "length c1 = length cs" by auto
  from Cons.IH [OF c1(2)] c1 show ?case by auto
qed

lemma prepend_Args:
  "prepend v r = Args args \<longleftrightarrow> (\<exists>vs. r = Args vs \<and> args = v # vs)"
  by (cases r) auto

lemma prepend_not_Args:
  "prepend v r = NoMatch \<longleftrightarrow> r = NoMatch"
  "prepend v r = IterFailed e \<longleftrightarrow> r = IterFailed e"
  "prepend v r = Panicked p \<longleftrightarrow> r = Panicked p"
  by (cases r; auto)+

lemma makeObjectIter_value: "makeObjectIter t = Inr it \<Longrightarrow> it = V t PIter"
  by (auto simp: makeObjectIter_def split: if_splits)

lemma assignTo_assignable:
  "AssignableTo (vtype v) t \<Longrightarrow> \<exists>x. assignTo v t = Some x"
  by (auto simp: AssignableTo_def assignTo_def)

lemma assignTo_same: "assignTo (V t d) t = Some (V t d)"
  by (simp add: assignTo_def directlyAssignable_def)

lemma resolve_assignAll:
  "resolve ob now ts = Args args \<Longrightarrow> \<exists>xs. assignAll args ts = Inr xs"
proof (induction ts arbitrary: args)
  case Nil
  then show ?case by simp
next
  case (Cons t ts)
  from Cons.prems obtain v vs where a: "args = v # vs" and r: "resolve ob now ts = Args vs"
    and v: "AssignableTo (vtype v) t"
    by (auto simp: prepend_Args AssignableTo_def directlyAssignable_def
        dest!: makeObjectIter_value find_assignable_Some
        split: if_splits sum.splits option.splits)
  from Cons.IH [OF r] obtain xs where "assignAll vs ts = Inr xs" by auto
  moreover from assignTo_assignable [OF v] obtain x where "assignTo v t = Some x" by auto
  ultimately show ?case by (simp add: a)
qed

lemma resolve_Call:
  "resolve ob now (ins (ftype f)) = Args args \<Longrightarrow> \<exists>results. Call f args st = Inr results \<and> length results = NumOut (ftype f) \<and> map vtype results = outs (ftype f)"
  by (auto simp: Call_def NumOut_def comp_def map_nth dest!: resolve_assignAll)


lemma Component_loop_first:
  "(\<forall>x \<in> set pre. TypeOf x \<noteq> t) \<Longrightarrow> TypeOf c = t \<Longrightarrow>
   Component_loop t (pre @ c # post) = c"
  by (induction pre) auto

lemma tick_loop_Cons:
  "tick_object s now st a = Inr st' \<Longrightarrow> tick_loop s now (a # as) st = tick_loop s now as st'"
  by simp

text \<open>
  Claim C4. With several components of one type, \<^verbatim>\<open>Object.Component\<close> returns the first
  component of the representative's type in storage order. The write-back of a result stores it
  in the first slot whose component's type the result's type is assignable to, and leaves every
  other slot as it is: so does the inner loop of \<^verbatim>\<open>rl\<close>, and so does the dispatcher for an
  object that a system with one result, not an error, is invoked on.
\<close>

theorem first_match_wins:
  "(components ob = pre @ c # post \<and> (\<forall>x \<in> set pre. TypeOf x \<noteq> TypeOf rep) \<and>
      TypeOf c = TypeOf rep
    \<longrightarrow> Component ob rep = c) \<and>
   ((\<forall>x \<in> set pre'. \<exists>v. x = Some v \<and> \<not> AssignableTo (vtype r) (vtype v)) \<and>
      AssignableTo (vtype r) (vtype cv)
    \<longrightarrow> write_result r (pre' @ Some cv # post') = Inr (pre' @ Interface r # post')) \<and>
   (resolve (heap st a) now (ins (ftype (Func s))) = Args args \<and>
      Call (Func s) args st = Inr [r] \<and> vtype r \<noteq> errorType \<and>
      components (heap st a) = pre' @ Some cv # post' \<and>
      (\<forall>x \<in> set pre'. \<exists>v. x = Some v \<and> \<not> AssignableTo (vtype r) (vtype v)) \<and>
      AssignableTo (vtype r) (vtype cv)
    \<longrightarrow> tick_object s now st a =
          Inr (st\<lparr>heap := (heap st)(a := (heap st a)\<lparr>components := pre' @ Interface r # post'\<rparr>),
                  called := called st @ [(a, args)]\<rparr>))"
proof (intro conjI impI)
  assume "components ob = pre @ c # post \<and> (\<forall>x \<in> set pre. TypeOf x \<noteq> TypeOf rep) \<and>
      TypeOf c = TypeOf rep"
  then show "Component ob rep = c"
    by (simp add: Component_def Component_loop_first)
next
  assume "(\<forall>x \<in> set pre'. \<exists>v. x = Some v \<and> \<not> AssignableTo (vtype r) (vtype v)) \<and>
      AssignableTo (vtype r) (vtype cv)"
  then show "write_result r (pre' @ Some cv # post') = Inr (pre' @ Interface r # post')"
    by (simp add: write_result_first)
next
  assume h: "resolve (heap st a) now (ins (ftype (Func s))) = Args args \<and>
      Call (Func s) args st = Inr [r] \<and> vtype r \<noteq> errorType \<and>
      components (heap st a) = pre' @ Some cv # post' \<and>
      (\<forall>x \<in> set pre'. \<exists>v. x = Some v \<and> \<not> AssignableTo (vtype r) (vtype v)) \<and>
      AssignableTo (vtype r) (vtype cv)"
  then have w: "write_result r (pre' @ Some cv # post') = Inr (pre' @ Interface r # post')"
    by (simp add: write_result_first)
  from h have res: "resolve (heap st a) now (ins (ftype (Func s))) = Args args"
    and call: "Call (Func s) args st = Inr [r]" and ne: "vtype r \<noteq> errorType"
    and cs: "components (heap st a) = pre' @ Some cv # post'" by simp_all
  show "tick_object s now st a =
          Inr (st\<lparr>heap := (heap st)(a := (heap st a)\<lparr>components := pre' @ Interface r # post'\<rparr>),
                  called := called st @ [(a, args)]\<rparr>)"
    unfolding tick_object_def
    by (simp add: res call ne cs w Let_def del: resolve.simps write_result.simps)
qed


lemma two_positions_eq:
  "objects two_positions = [0]"
  "components (heap two_positions 0) = [Velocity 2, Position 1, Position 7]"
  "called two_positions = []"
  by (simp_all add: two_positions_def spawn_def NewObject_def AddObject_def NewWorld_def)

text \<open>
  An object with \<^verbatim>\<open>Velocity(2)\<close>, \<^verbatim>\<open>Position(1)\<close> and \<^verbatim>\<open>Position(7)\<close>: the lookup gives
  \<^verbatim>\<open>Position(1)\<close>, and the movement system overwrites the first position with 3 and leaves the
  second at 7.
\<close>

theorem first_match_wins_witness:
  "Component (heap two_positions 0) (Position 0) = Position 1 \<and>
   write_result (V PositionT (PInt 3)) [Velocity 2, Position 1, Position 7] =
     Inr [Velocity 2, Position 3, Position 7] \<and>
   tick_object movement 0 two_positions 0 =
     Inr (two_positions\<lparr>heap := (heap two_positions)
                           (0 := (heap two_positions 0)
                                 \<lparr>components := [Velocity 2, Position 3, Position 7]\<rparr>),
                         called := [(0, [V PositionT (PInt 1), V VelocityT (PInt 2)])]\<rparr>)"
proof -
  let ?r = "V PositionT (PInt 3)" and ?cv = "V PositionT (PInt 1)"
  let ?args = "[V PositionT (PInt 1), V VelocityT (PInt 2)]"
  note fm = first_match_wins [where ob = "heap two_positions 0" and pre = "[Velocity 2]"
      and c = "Position 1" and post = "[Position 7]" and rep = "Position 0"
      and pre' = "[Velocity 2]" and r = ?r and cv = ?cv and post' = "[Position 7]"
      and st = two_positions and a = 0 and now = 0 and s = movement and args = ?args]
  have asg: "\<not> AssignableTo PositionT VelocityT" "AssignableTo PositionT PositionT"
    by (simp_all add: AssignableTo_def directlyAssignable_def implements_def type_defs)
  have ifr: "Interface ?r = Some ?r"
    by (simp add: Interface_def type_defs)
  have res: "resolve (heap two_positions 0) 0 (ins (ftype (Func movement))) = Args ?args"
    by (simp add: movement_def two_positions_eq Position_def Velocity_def ValueOf_def
        AssignableTo_def directlyAssignable_def implements_def type_defs)
  have call: "Call (Func movement) ?args two_positions = Inr [?r]"
    by (simp add: Call_def movement_def assignTo_def directlyAssignable_def NumOut_def)
  have ne: "PositionT \<noteq> errorType" by (simp add: type_defs)
  have cs: "components (heap two_positions 0) = [Velocity 2] @ Some ?cv # [Position 7]"
    by (simp add: two_positions_eq Position_def)
  have pre: "\<forall>x \<in> set [Velocity 2]. \<exists>v. x = Some v \<and> \<not> AssignableTo (vtype ?r) (vtype v)"
    using asg by (simp add: Velocity_def)
  have 1: "Component (heap two_positions 0) (Position 0) = Position 1"
    using fm [THEN conjunct1]
    by (simp add: two_positions_eq Position_def Velocity_def TypeOf_def type_defs)
  have 2: "write_result ?r [Velocity 2, Position 1, Position 7] =
     Inr [Velocity 2, Position 3, Position 7]"
    using fm [THEN conjunct2, THEN conjunct1, THEN mp, OF conjI, OF pre] asg
    by (simp add: ifr Position_def)
  have 3: "tick_object movement 0 two_positions 0 =
     Inr (two_positions\<lparr>heap := (heap two_positions)
                           (0 := (heap two_positions 0)
                                 \<lparr>components := [Velocity 2, Position 3, Position 7]\<rparr>),
                         called := [(0, ?args)]\<rparr>)"
    using fm [THEN conjunct2, THEN conjunct2, THEN mp] res call ne cs pre asg
    by (simp add: ifr Position_def two_positions_eq del: resolve.simps)
  from 1 2 3 show ?thesis by simp
qed


lemma resolve_data_param:
  "\<not> special t \<Longrightarrow>
   resolve ob now (t # ts) =
     (case find_assignable t (components ob) of
        Inl p \<Rightarrow> Panicked p
      | Inr None \<Rightarrow> NoMatch
      | Inr (Some cv) \<Rightarrow> prepend cv (resolve ob now ts))"
  by (simp add: special_def)

lemma resolve_skips:
  assumes nonnil: "None \<notin> set (components ob)"
    and t: "t \<in> set ts" "\<not> special t"
    and none: "\<forall>c \<in> set (components ob). \<exists>v. c = Some v \<and> \<not> AssignableTo (vtype v) t"
  shows "resolve ob now ts = NoMatch \<or> (\<exists>e. resolve ob now ts = IterFailed e)"
  using t
proof (induction ts)
  case Nil
  then show ?case by simp
next
  case (Cons u us)
  show ?case
  proof (cases "u = t")
    case True
    with Cons.prems none show ?thesis
      by (simp add: resolve_data_param find_assignable_none del: resolve.simps)
  next
    case False
    with Cons have rest: "resolve ob now us = NoMatch \<or> (\<exists>e. resolve ob now us = IterFailed e)"
      by simp
    then have pre: "\<And>v. prepend v (resolve ob now us) = NoMatch \<or>
        (\<exists>e. prepend v (resolve ob now us) = IterFailed e)" by auto
    from find_assignable_no_panic [OF nonnil, of u]
    obtain r where r: "find_assignable u (components ob) = Inr r" by auto
    show ?thesis
      using pre r by (auto split: sum.splits option.splits)
  qed
qed

lemma resolve_Args_nth:
  "resolve ob now ts = Args args \<Longrightarrow>
   length args = length ts \<and>
   (\<forall>i < length ts. \<not> special (ts ! i) \<longrightarrow>
      find_assignable (ts ! i) (components ob) = Inr (Some (args ! i)))"
proof (induction ts arbitrary: args)
  case Nil
  then show ?case by simp
next
  case (Cons t ts)
  from Cons.prems obtain v vs where a: "args = v # vs" and r: "resolve ob now ts = Args vs"
    and v: "\<not> special t \<longrightarrow> find_assignable t (components ob) = Inr (Some v)"
    by (auto simp: prepend_Args special_def split: if_splits sum.splits option.splits)
  from Cons.IH [OF r] have ih: "length vs = length ts"
    "\<And>i. i < length ts \<Longrightarrow> \<not> special (ts ! i) \<Longrightarrow>
       find_assignable (ts ! i) (components ob) = Inr (Some (vs ! i))" by auto
  show ?case
  proof (intro conjI allI impI)
    show "length args = length (t # ts)" using a ih by simp
  next
    fix i assume "i < length (t # ts)" "\<not> special ((t # ts) ! i)"
    then show "find_assignable ((t # ts) ! i) (components ob) = Inr (Some (args ! i))"
      using a v ih by (cases i) auto
  qed
qed

lemma two_movers_eq:
  "objects two_movers = [0, 1]"
  "components (heap two_movers 0) = [Position 1, Velocity 2]"
  "components (heap two_movers (Suc 0)) = [Position 5, Velocity 1]"
  "OnError two_movers"
  "handled two_movers = []"
  "logged two_movers = []"
  "called two_movers = []"
  by (simp_all add: two_movers_def spawn_def NewObject_def AddObject_def NewWorld_def)

text \<open>
  Claim C2. When the function of a system is called for an object and its last result is an
  error that is not nil, the step of the sweep does not fail: the error goes to the handler
  with the system's name and the arguments (to the log when no handler is set), the results
  before the error are written back to the components of the object, and the sweep goes on
  with the remaining objects from the state so reached.
\<close>

theorem error_does_not_abort:
  assumes res: "resolve (heap st a) now (ins (ftype (Func s))) = Args args"
    and call: "Call (Func s) args st = Inr results"
    and ne: "results \<noteq> []"
    and et: "vtype (last results) = errorType"
    and nn: "\<not> IsNil (last results)"
    and ty: "list_all typed (components (heap st a))"
  shows "\<exists>cs st'.
     write_back (butlast results) (components (heap st a)) = Inr cs \<and>
     tick_object s now st a = Inr st' \<and>
     st' = (handleSystemError (st\<lparr>called := called st @ [(a, args)]\<rparr>) (system_name s)
              (map Interface args) (Interface (last results)))
            \<lparr>heap := (heap st)(a := (heap st a)\<lparr>components := cs\<rparr>)\<rparr> \<and>
     (if OnError st
      then handled st' = handled st @
             [(system_name s, map Interface args, Interface (last results))] \<and>
           logged st' = logged st
      else handled st' = handled st \<and> length (logged st') = length (logged st) + 1) \<and>
     called st' = called st @ [(a, args)] \<and>
     components (heap st' a) = cs \<and>
     tick_loop s now (a # as) st = tick_loop s now as st'"
proof -
  from write_back_typed [OF ty, of "butlast results"] obtain cs where
    wb: "write_back (butlast results) (components (heap st a)) = Inr cs" by auto
  let ?st1 = "st\<lparr>called := called st @ [(a, args)]\<rparr>"
  let ?st2 = "handleSystemError ?st1 (system_name s) (map Interface args) (Interface (last results))"
  let ?st' = "?st2\<lparr>heap := (heap st)(a := (heap st a)\<lparr>components := cs\<rparr>)\<rparr>"
  have h2: "heap ?st2 = heap st" by (simp add: handleSystemError_def)
  have t: "tick_object s now st a = Inr ?st'"
    unfolding tick_object_def
    using ne by (simp add: res call et nn Let_def h2 wb del: resolve.simps)
  have obs: "(if OnError st
      then handled ?st' = handled st @
             [(system_name s, map Interface args, Interface (last results))] \<and>
           logged ?st' = logged st
      else handled ?st' = handled st \<and> length (logged ?st') = length (logged st) + 1)"
    "called ?st' = called st @ [(a, args)]" "components (heap ?st' a) = cs"
    by (simp_all add: handleSystemError_def)
  have nxt: "tick_loop s now (a # as) st = tick_loop s now as ?st'"
    using t by (rule tick_loop_Cons)
  show ?thesis
    apply (rule exI [of _ cs])
    apply (rule exI [of _ ?st'])
    apply (intro conjI)
          apply (rule wb)
         apply (rule t)
        apply (rule refl)
       apply (rule obs(1))
      apply (rule obs(2))
     apply (rule obs(3))
    apply (rule nxt)
    done
qed

text \<open>
  The movement of \<^verbatim>\<open>TestError\<close>, which returns \<^verbatim>\<open>Position(0)\<close> and an error, in a world of two
  objects: both objects are visited in order, the handler is called for each, and each
  position is overwritten with 0.
\<close>

theorem error_does_not_abort_witness:
  "tick stuck two_movers 0 =
     Inr (two_movers
          \<lparr>heap := (heap two_movers)
                    (0 := (heap two_movers 0)\<lparr>components := [Position 0, Velocity 2]\<rparr>,
                     1 := (heap two_movers 1)\<lparr>components := [Position 0, Velocity 1]\<rparr>),
            handled := [(''movement'', [Position 1, Velocity 2],
                         Some (V errorStringT (PStr ''cannot move''))),
                        (''movement'', [Position 5, Velocity 1],
                         Some (V errorStringT (PStr ''cannot move'')))],
            called := [(0, [V PositionT (PInt 1), V VelocityT (PInt 2)]),
                       (1, [V PositionT (PInt 5), V VelocityT (PInt 1)])]\<rparr>)"
proof -
  let ?args = "[V PositionT (PInt 1), V VelocityT (PInt 2)]"
  let ?results = "[V PositionT (PInt 0), V errorType cannotMove]"
  have asg: "\<not> AssignableTo PositionT VelocityT" "AssignableTo PositionT PositionT"
    "AssignableTo VelocityT VelocityT" "\<not> AssignableTo VelocityT PositionT"
    by (simp_all add: AssignableTo_def directlyAssignable_def implements_def type_defs)
  have sp: "PositionT \<noteq> worldType" "PositionT \<noteq> entityType" "PositionT \<noteq> timeType"
    "Kind PositionT \<noteq> KFunc" "VelocityT \<noteq> worldType" "VelocityT \<noteq> entityType"
    "VelocityT \<noteq> timeType" "Kind VelocityT \<noteq> KFunc" "PositionT \<noteq> errorType"
    "Kind PositionT \<noteq> KInterface" "Kind VelocityT \<noteq> KInterface"
    "Kind errorType = KInterface"
    by (simp_all add: type_defs)
  have res: "resolve (heap two_movers 0) 0 (ins (ftype (Func stuck))) = Args ?args"
    by (simp add: stuck_def two_movers_eq Position_def Velocity_def ValueOf_def asg sp)
  have call: "\<And>st. Call (Func stuck) ?args st = Inr ?results"
    by (simp add: Call_def stuck_def assignTo_def directlyAssignable_def NumOut_def upt_rec)
  have ty: "list_all typed (components (heap two_movers 0))"
    by (simp add: two_movers_eq typed_def Position_def Velocity_def sp)
  from error_does_not_abort [where as = "[1]", OF res call] ty
  obtain cs st' where
    wb: "write_back (butlast ?results) (components (heap two_movers 0)) = Inr cs"
    and st': "st' = (handleSystemError (two_movers\<lparr>called := called two_movers @ [(0, ?args)]\<rparr>)
              (system_name stuck) (map Interface ?args) (Interface (last ?results)))
            \<lparr>heap := (heap two_movers)(0 := (heap two_movers 0)\<lparr>components := cs\<rparr>)\<rparr>"
    and nxt: "tick_loop stuck 0 (0 # [1]) two_movers = tick_loop stuck 0 [1] st'"
    by (auto simp: errorType_def IsNil_def cannotMove_def simp del: tick_loop.simps)
  have cs: "cs = [Position 0, Velocity 2]"
    using wb by (simp add: two_movers_eq Position_def Velocity_def ValueOf_def asg Interface_def sp)
  have ife: "Interface (V errorType cannotMove) = Some (V errorStringT (PStr ''cannot move''))"
    by (simp add: Interface_def cannotMove_def sp)
  have ifa: "\<And>x. Interface (V PositionT (PInt x)) = Position x"
    "\<And>x. Interface (V VelocityT (PInt x)) = Velocity x"
    by (simp_all add: Interface_def Position_def Velocity_def sp)
  have st'_eq: "st' = two_movers
          \<lparr>heap := (heap two_movers)
                    (0 := (heap two_movers 0)\<lparr>components := [Position 0, Velocity 2]\<rparr>),
            handled := [(''movement'', [Position 1, Velocity 2],
                         Some (V errorStringT (PStr ''cannot move'')))],
            called := [(0, ?args)]\<rparr>"
    by (simp add: st' cs handleSystemError_def two_movers_eq system_name_def stuck_def ife ifa)
  let ?args1 = "[V PositionT (PInt 5), V VelocityT (PInt 1)]"
  have res1: "resolve (heap st' (Suc 0)) 0 (ins (ftype (Func stuck))) = Args ?args1"
    by (simp add: st'_eq stuck_def two_movers_eq Position_def Velocity_def ValueOf_def asg sp)
  have call1: "Call (Func stuck) ?args1 st' = Inr [V PositionT (PInt 0), V errorType cannotMove]"
    by (simp add: Call_def stuck_def assignTo_def directlyAssignable_def NumOut_def upt_rec)
  have "tick_object stuck 0 st' 1 = Inr (two_movers
          \<lparr>heap := (heap two_movers)
                    (0 := (heap two_movers 0)\<lparr>components := [Position 0, Velocity 2]\<rparr>,
                     1 := (heap two_movers 1)\<lparr>components := [Position 0, Velocity 1]\<rparr>),
            handled := [(''movement'', [Position 1, Velocity 2],
                         Some (V errorStringT (PStr ''cannot move''))),
                        (''movement'', [Position 5, Velocity 1],
                         Some (V errorStringT (PStr ''cannot move'')))],
            called := [(0, ?args), (1, ?args1)]\<rparr>)"
    unfolding tick_object_def
    apply (simp add: res1 call1 Let_def del: resolve.simps)
    apply (simp add: st'_eq IsNil_def cannotMove_def sp handleSystemError_def two_movers_eq
        system_name_def stuck_def ife [unfolded cannotMove_def] ifa
        Position_def Velocity_def ValueOf_def asg Interface_def)
    done
  then show ?thesis
    using nxt by (simp add: tick_def two_movers_eq stuck_def)
qed


lemma prepend_case:
  "prepend v (case r of Args vs \<Rightarrow> f vs | NoMatch \<Rightarrow> NoMatch | IterFailed e \<Rightarrow> IterFailed e
                | Panicked p \<Rightarrow> Panicked p) =
   (case r of Args vs \<Rightarrow> prepend v (f vs) | NoMatch \<Rightarrow> NoMatch | IterFailed e \<Rightarrow> IterFailed e
                | Panicked p \<Rightarrow> Panicked p)"
  by (cases r) auto

lemma resolve_after_Args:
  "resolve ob now pre = Args vs \<Longrightarrow>
   resolve ob now (pre @ ts) =
     (case resolve ob now ts of Args ws \<Rightarrow> Args (vs @ ws) | NoMatch \<Rightarrow> NoMatch
      | IterFailed e \<Rightarrow> IterFailed e | Panicked p \<Rightarrow> Panicked p)"
proof (induction pre arbitrary: vs)
  case Nil
  then show ?case by (cases "resolve ob now ts") auto
next
  case (Cons t pre)
  from Cons.prems obtain v ws where vs: "vs = v # ws" and r: "resolve ob now pre = Args ws"
    and t: "resolve ob now (t # pre) = prepend v (resolve ob now pre)"
    and t': "resolve ob now (t # pre @ ts) = prepend v (resolve ob now (pre @ ts))"
    by (auto simp: prepend_Args split: if_splits sum.splits option.splits)
  show ?case
    using t' Cons.IH [OF r] vs by (cases "resolve ob now ts") auto
qed

lemma KFunc_not_special_type:
  "Kind t = KFunc \<Longrightarrow> t \<noteq> worldType \<and> t \<noteq> entityType \<and> t \<noteq> timeType"
  by (auto simp: type_defs)

text \<open>
  Claim C6 says that building the iterator fails exactly when the function type has more than
  one input, an input that is not of an integer kind, fewer than two outputs, or a last output
  that is not boolean. \<^verbatim>\<open>makeObjectIter\<close> does not look at the kind of the input: for
  \<^verbatim>\<open>func(string) (int, bool)\<close> it builds the iterator.
\<close>

theorem iterator_shape_counterexample:
  "NumIn (FuncT [StringT] [IntT, BoolT]) = 1 \<and>
   Kind (ins (FuncT [StringT] [IntT, BoolT]) ! 0) = KString \<and>
   makeObjectIter (FuncT [StringT] [IntT, BoolT]) = Inr (V (FuncT [StringT] [IntT, BoolT]) PIter)"
  by (simp add: makeObjectIter_def NumIn_def NumOut_def)

text \<open>
  Claim C6, amended. \<^verbatim>\<open>makeObjectIter\<close> fails exactly when the function type has more than one
  input, fewer than two outputs, or a last output that is not of kind bool. When the parameters
  before a function-typed parameter resolve for an object and the iterator for that parameter
  cannot be built, the function of the system is not called for the object: the step logs the
  failure and changes nothing else, and the sweep goes on with the next object.
\<close>

theorem makeObjectIter_shape:
  "((\<exists>err. makeObjectIter t = Inl err) \<longleftrightarrow>
      (1 < NumIn t \<or> NumOut t < 2 \<or> Kind (last (outs t)) \<noteq> KBool)) \<and>
   (ins (ftype (Func s)) = pre @ u # post \<and> resolve (heap st a) now pre = Args vs \<and>
      Kind u = KFunc \<and> makeObjectIter u = Inl err
    \<longrightarrow> tick_object s now st a =
          Inr (st\<lparr>logged := logged st @ [''failed to make object iter: '' @ err]\<rparr>) \<and>
        tick_loop s now (a # as) st =
          tick_loop s now as (st\<lparr>logged := logged st @ [''failed to make object iter: '' @ err]\<rparr>))"
proof (intro conjI impI)
  have "2 \<le> NumOut t \<Longrightarrow> outs t ! (NumOut t - 1) = last (outs t)"
    by (cases "outs t" rule: rev_cases) (auto simp: NumOut_def)
  then show "(\<exists>err. makeObjectIter t = Inl err) \<longleftrightarrow>
      (1 < NumIn t \<or> NumOut t < 2 \<or> Kind (last (outs t)) \<noteq> KBool)"
    by (auto simp: makeObjectIter_def)
next
  assume h: "ins (ftype (Func s)) = pre @ u # post \<and> resolve (heap st a) now pre = Args vs \<and>
      Kind u = KFunc \<and> makeObjectIter u = Inl err"
  then have "resolve (heap st a) now (u # post) = IterFailed err"
    using KFunc_not_special_type [of u] by simp
  with h have "resolve (heap st a) now (ins (ftype (Func s))) = IterFailed err"
    by (simp add: resolve_after_Args del: resolve.simps)
  then show t: "tick_object s now st a =
          Inr (st\<lparr>logged := logged st @ [''failed to make object iter: '' @ err]\<rparr>)"
    by (simp add: tick_object_def)
  then show "tick_loop s now (a # as) st =
          tick_loop s now as (st\<lparr>logged := logged st @ [''failed to make object iter: '' @ err]\<rparr>)"
    by (rule tick_loop_Cons)
qed

text \<open>
  A system over a player and \<^verbatim>\<open>func() bool\<close>, for the object that is a player.
\<close>

theorem makeObjectIter_shape_witness:
  "makeObjectIter (FuncT [] [BoolT]) =
     Inl ''invalid signature: at least two return values expected'' \<and>
   NumOut (FuncT [] [BoolT]) < 2 \<and>
   resolve (heap three_objects 0) 0 [PlayerT] = Args [V PlayerT (PStruct [])] \<and>
   tick_object bad_query 0 three_objects 0 =
     Inr (three_objects\<lparr>logged := [''failed to make object iter: '' @
                                      ''invalid signature: at least two return values expected'']\<rparr>) \<and>
   called three_objects = []"
proof -
  let ?u = "FuncT [] [BoolT]"
  let ?err = "''invalid signature: at least two return values expected''"
  have mk: "makeObjectIter ?u = Inl ?err"
    by (simp add: makeObjectIter_def NumIn_def NumOut_def)
  have res: "resolve (heap three_objects 0) 0 [PlayerT] = Args [V PlayerT (PStruct [])]"
    by (simp add: three_objects_eq Player_def Position_def ValueOf_def
        AssignableTo_def directlyAssignable_def implements_def type_defs)
  have i: "ins (ftype (Func bad_query)) = [PlayerT] @ ?u # []"
    by (simp add: bad_query_def)
  have lg: "logged three_objects = []" "called three_objects = []"
    by (simp_all add: three_objects_def spawn_def NewObject_def AddObject_def NewWorld_def)
  note th = makeObjectIter_shape [where t = ?u and s = bad_query and pre = "[PlayerT]"
      and u = ?u and post = "[]" and st = three_objects and a = 0 and now = 0
      and vs = "[V PlayerT (PStruct [])]" and err = ?err and as = "[]"]
  have 1: "NumOut ?u < 2"
    using th [THEN conjunct1] mk by (simp add: NumIn_def NumOut_def)
  have 2: "tick_object bad_query 0 three_objects 0 =
     Inr (three_objects\<lparr>logged := [''failed to make object iter: '' @ ?err]\<rparr>)"
    using th [THEN conjunct2, THEN mp, THEN conjunct1] i res mk
    by (simp add: lg del: resolve.simps)
  from mk 1 res 2 lg show ?thesis by (simp del: resolve.simps)
qed


lemma find_assignable_exists:
  "None \<notin> set cs \<Longrightarrow> (\<exists>v. Some v \<in> set cs \<and> AssignableTo (vtype v) t) \<Longrightarrow>
   \<exists>cv. find_assignable t cs = Inr (Some cv)"
proof (induction cs)
  case Nil
  then show ?case by simp
next
  case (Cons c cs)
  then obtain w where c: "c = Some w" by (cases c) auto
  show ?case
  proof (cases "AssignableTo (vtype w) t")
    case True
    then show ?thesis by (simp add: c ValueOf_def)
  next
    case False
    with Cons c show ?thesis by (auto simp: ValueOf_def)
  qed
qed

lemma find_assignable_decomp:
  "find_assignable t cs = Inr (Some cv) \<Longrightarrow>
   \<exists>pre post. cs = pre @ Some cv # post \<and>
      (\<forall>c \<in> set pre. \<exists>v. c = Some v \<and> \<not> AssignableTo (vtype v) t) \<and>
      AssignableTo (vtype cv) t"
proof (induction cs)
  case Nil
  then show ?case by simp
next
  case (Cons c cs)
  from Cons.prems obtain w where c: "c = Some w"
    by (cases c) (auto simp: ValueOf_def)
  show ?case
  proof (cases "AssignableTo (vtype w) t")
    case True
    with Cons.prems c have "cv = w" by (simp add: ValueOf_def)
    with True c have "c # cs = [] @ Some cv # cs \<and>
      (\<forall>c \<in> set []. \<exists>v. c = Some v \<and> \<not> AssignableTo (vtype v) t) \<and>
      AssignableTo (vtype cv) t" by simp
    then show ?thesis by blast
  next
    case False
    with Cons.prems c have "find_assignable t cs = Inr (Some cv)" by (simp add: ValueOf_def)
    from Cons.IH [OF this] obtain pre post where
      p: "cs = pre @ Some cv # post"
      "\<forall>c \<in> set pre. \<exists>v. c = Some v \<and> \<not> AssignableTo (vtype v) t"
      "AssignableTo (vtype cv) t" by blast
    with False c have "c # cs = (c # pre) @ Some cv # post \<and>
      (\<forall>c \<in> set (c # pre). \<exists>v. c = Some v \<and> \<not> AssignableTo (vtype v) t) \<and>
      AssignableTo (vtype cv) t" by simp
    then show ?thesis by blast
  qed
qed

lemma resolve_matching:
  assumes nn: "None \<notin> set (components ob)"
  shows "(\<forall>t \<in> set ts. accepted t \<and>
            (\<not> special t \<longrightarrow> (\<exists>v. Some v \<in> set (components ob) \<and> AssignableTo (vtype v) t))) \<Longrightarrow>
         \<exists>args. resolve ob now ts = Args args"
proof (induction ts)
  case Nil
  then show ?case by simp
next
  case (Cons t ts)
  then obtain args where r: "resolve ob now ts = Args args" by auto
  show ?case
  proof (cases "special t")
    case True
    with Cons.prems r show ?thesis by (auto simp: special_def accepted_def)
  next
    case False
    with Cons.prems have "\<exists>v. Some v \<in> set (components ob) \<and> AssignableTo (vtype v) t" by simp
    from find_assignable_exists [OF nn this] obtain cv where
      "find_assignable t (components ob) = Inr (Some cv)" by auto
    with False r show ?thesis by (simp add: resolve_data_param del: resolve.simps)
  qed
qed

lemma typed_nonnil: "list_all typed cs \<Longrightarrow> None \<notin> set cs"
  by (induction cs) (auto simp: typed_def)

lemma tick_object_Args:
  assumes res: "resolve (heap st a) now (ins (ftype (Func s))) = Args args"
    and ty: "list_all typed (components (heap st a))"
  shows "\<exists>st'. tick_object s now st a = Inr st' \<and>
           called st' = called st @ [(a, args)] \<and>
           objects st' = objects st \<and>
           (\<forall>b. entity (heap st' b) = entity (heap st b)) \<and>
           (\<forall>b. list_all typed (components (heap st b)) \<longrightarrow>
                list_all typed (components (heap st' b)))"
proof -
  from resolve_Call [OF res] obtain results where
    call: "Call (Func s) args st = Inr results" by auto
  let ?st1 = "st\<lparr>called := called st @ [(a, args)]\<rparr>"
  show ?thesis
  proof (cases "results = []")
    case True
    have "tick_object s now st a = Inr ?st1"
      unfolding tick_object_def by (simp add: res call True del: resolve.simps)
    then show ?thesis by auto
  next
    case False
    let ?v = "last results"
    let ?rs = "if vtype ?v = errorType then butlast results else results"
    let ?st2 = "if vtype ?v = errorType \<and> \<not> IsNil ?v
                then handleSystemError ?st1 (system_name s) (map Interface args) (Interface ?v)
                else ?st1"
    have h2: "heap ?st2 = heap st" "called ?st2 = called st @ [(a, args)]"
      "objects ?st2 = objects st"
      by (simp_all add: handleSystemError_def)
    from write_back_typed [OF ty, of ?rs] obtain cs where
      wb: "write_back ?rs (components (heap st a)) = Inr cs" and tcs: "list_all typed cs"
      by auto
    let ?st' = "?st2\<lparr>heap := (heap st)(a := (heap st a)\<lparr>components := cs\<rparr>)\<rparr>"
    have t: "tick_object s now st a = Inr ?st'"
      unfolding tick_object_def
      using False wb by (simp add: res call Let_def h2 del: resolve.simps)
    show ?thesis
      apply (rule exI [of _ ?st'])
      apply (intro conjI)
          apply (rule t)
         apply (simp add: handleSystemError_def)
        apply (simp add: handleSystemError_def)
       apply simp
      apply (simp add: tcs)
      done
  qed
qed

text \<open>
  Claim C5. One step of the sweep, for one object whose components are typed values. When
  every parameter that is not special has a component of the object assignable to it, and every
  function-typed parameter is one that \<^verbatim>\<open>makeObjectIter\<close> accepts, the function is called for
  the object: the trace of calls gains the object with its arguments, one for each parameter,
  and the argument at the position of a parameter that is not special is the first component,
  in storage order, whose type is assignable to the parameter's type. When no component of
  the object is assignable to some such parameter, the function is not called for the object:
  the step returns, with at most a line logged for a function-typed parameter met before, and
  the trace of calls is unchanged. In both cases the sweep goes on with the next object.
\<close>

theorem resolve_first_or_skip:
  "(list_all typed (components (heap st a)) \<and>
      (\<forall>t \<in> set (ins (ftype (Func s))). accepted t \<and>
          (\<not> special t \<longrightarrow>
             (\<exists>v. Some v \<in> set (components (heap st a)) \<and> AssignableTo (vtype v) t)))
    \<longrightarrow> (\<exists>st' args. tick_object s now st a = Inr st' \<and>
            called st' = called st @ [(a, args)] \<and>
            length args = length (ins (ftype (Func s))) \<and>
            (\<forall>i < length (ins (ftype (Func s))). \<not> special (ins (ftype (Func s)) ! i) \<longrightarrow>
               (\<exists>pre post. components (heap st a) = pre @ Some (args ! i) # post \<and>
                  (\<forall>c \<in> set pre. \<exists>v. c = Some v \<and>
                      \<not> AssignableTo (vtype v) (ins (ftype (Func s)) ! i)) \<and>
                  AssignableTo (vtype (args ! i)) (ins (ftype (Func s)) ! i))) \<and>
            tick_loop s now (a # as) st = tick_loop s now as st')) \<and>
   (t \<in> set (ins (ftype (Func s))) \<and> \<not> special t \<and>
      (\<forall>c \<in> set (components (heap st a)). \<exists>v. c = Some v \<and> \<not> AssignableTo (vtype v) t)
    \<longrightarrow> (\<exists>st'. tick_object s now st a = Inr st' \<and>
              (st' = st \<or>
               (\<exists>err. st' = st\<lparr>logged := logged st @ [''failed to make object iter: '' @ err]\<rparr>)) \<and>
              called st' = called st \<and>
              tick_loop s now (a # as) st = tick_loop s now as st'))"
proof (intro conjI impI)
  let ?ts = "ins (ftype (Func s))" and ?cs = "components (heap st a)"
  assume h: "list_all typed ?cs \<and>
      (\<forall>t \<in> set ?ts. accepted t \<and>
          (\<not> special t \<longrightarrow> (\<exists>v. Some v \<in> set ?cs \<and> AssignableTo (vtype v) t)))"
  then have ty: "list_all typed ?cs" by simp
  from resolve_matching [OF typed_nonnil [OF ty], of ?ts now] h obtain args where
    res: "resolve (heap st a) now ?ts = Args args" by blast
  from tick_object_Args [OF res ty] obtain st' where
    t: "tick_object s now st a = Inr st'" and c: "called st' = called st @ [(a, args)]"
    by blast
  from resolve_Args_nth [OF res] have len: "length args = length ?ts"
    and nth: "\<And>i. i < length ?ts \<Longrightarrow> \<not> special (?ts ! i) \<Longrightarrow>
                find_assignable (?ts ! i) ?cs = Inr (Some (args ! i))" by auto
  have first: "\<forall>i < length ?ts. \<not> special (?ts ! i) \<longrightarrow>
               (\<exists>pre post. ?cs = pre @ Some (args ! i) # post \<and>
                  (\<forall>c \<in> set pre. \<exists>v. c = Some v \<and> \<not> AssignableTo (vtype v) (?ts ! i)) \<and>
                  AssignableTo (vtype (args ! i)) (?ts ! i))"
    using nth find_assignable_decomp by blast
  have nxt: "tick_loop s now (a # as) st = tick_loop s now as st'"
    using t by (rule tick_loop_Cons)
  show "\<exists>st' args. tick_object s now st a = Inr st' \<and>
            called st' = called st @ [(a, args)] \<and>
            length args = length ?ts \<and>
            (\<forall>i < length ?ts. \<not> special (?ts ! i) \<longrightarrow>
               (\<exists>pre post. ?cs = pre @ Some (args ! i) # post \<and>
                  (\<forall>c \<in> set pre. \<exists>v. c = Some v \<and> \<not> AssignableTo (vtype v) (?ts ! i)) \<and>
                  AssignableTo (vtype (args ! i)) (?ts ! i))) \<and>
            tick_loop s now (a # as) st = tick_loop s now as st'"
    apply (rule exI [of _ st'])
    apply (rule exI [of _ args])
    apply (intro conjI)
        apply (rule t)
       apply (rule c)
      apply (rule len)
     apply (rule first)
    apply (rule nxt)
    done
next
  assume h: "t \<in> set (ins (ftype (Func s))) \<and> \<not> special t \<and>
      (\<forall>c \<in> set (components (heap st a)). \<exists>v. c = Some v \<and> \<not> AssignableTo (vtype v) t)"
  then have "None \<notin> set (components (heap st a))" by auto
  from resolve_skips [OF this, of t "ins (ftype (Func s))" now] h
  have "resolve (heap st a) now (ins (ftype (Func s))) = NoMatch \<or>
        (\<exists>e. resolve (heap st a) now (ins (ftype (Func s))) = IterFailed e)" by simp
  then show "\<exists>st'. tick_object s now st a = Inr st' \<and>
              (st' = st \<or>
               (\<exists>err. st' = st\<lparr>logged := logged st @ [''failed to make object iter: '' @ err]\<rparr>)) \<and>
              called st' = called st \<and>
              tick_loop s now (a # as) st = tick_loop s now as st'"
    by (auto simp: tick_object_def)
qed

text \<open>
  The movement system on the object holding a velocity and two positions is called with the
  first position and the velocity; on the first of the three objects, which has no velocity,
  it is not called and the world is unchanged.
\<close>

theorem resolve_first_or_skip_witness:
  "list_all typed (components (heap two_positions 0)) \<and>
   components (heap two_positions 0) = [Velocity 2, Position 1, Position 7] \<and>
   (\<exists>st'. tick_object movement 0 two_positions 0 = Inr st' \<and>
          called st' = [(0, [V PositionT (PInt 1), V VelocityT (PInt 2)])]) \<and>
   VelocityT \<in> set (ins (ftype (Func movement))) \<and>
   tick_object movement 0 three_objects 0 = Inr three_objects \<and>
   tick_loop movement 0 [0, 1, 2] three_objects = tick_loop movement 0 [1, 2] three_objects"
proof -
  let ?cargs = "[V PositionT (PInt 1), V VelocityT (PInt 2)]"
  have sp: "\<not> special PositionT" "\<not> special VelocityT"
    by (simp_all add: special_def type_defs)
  have acc: "accepted PositionT" "accepted VelocityT"
    by (simp_all add: accepted_def type_defs)
  have asg: "\<not> AssignableTo VelocityT PositionT" "AssignableTo PositionT PositionT"
    "\<not> AssignableTo PlayerT VelocityT" "\<not> AssignableTo PositionT VelocityT"
    "AssignableTo VelocityT VelocityT"
    by (simp_all add: AssignableTo_def directlyAssignable_def implements_def type_defs)
  have ty: "list_all typed (components (heap two_positions 0))"
    by (simp add: two_positions_eq typed_def Position_def Velocity_def type_defs)
  note th = resolve_first_or_skip [where st = two_positions and a = 0 and s = movement
      and now = 0 and as = "[]"]
  have ins_m: "ins (ftype (Func movement)) = [PositionT, VelocityT]"
    by (simp add: movement_def)
  have ex: "\<exists>v. Some v \<in> set (components (heap two_positions 0)) \<and> AssignableTo (vtype v) PositionT"
    "\<exists>v. Some v \<in> set (components (heap two_positions 0)) \<and> AssignableTo (vtype v) VelocityT"
  proof -
    have "Some (V PositionT (PInt 1)) \<in> set (components (heap two_positions 0)) \<and>
          AssignableTo (vtype (V PositionT (PInt 1))) PositionT"
      using asg by (simp add: two_positions_eq Position_def)
    then show "\<exists>v. Some v \<in> set (components (heap two_positions 0)) \<and>
        AssignableTo (vtype v) PositionT" ..
    have "Some (V VelocityT (PInt 2)) \<in> set (components (heap two_positions 0)) \<and>
          AssignableTo (vtype (V VelocityT (PInt 2))) VelocityT"
      using asg by (simp add: two_positions_eq Velocity_def)
    then show "\<exists>v. Some v \<in> set (components (heap two_positions 0)) \<and>
        AssignableTo (vtype v) VelocityT" ..
  qed
  have hyp: "list_all typed (components (heap two_positions 0)) \<and>
      (\<forall>t \<in> set (ins (ftype (Func movement))). accepted t \<and>
          (\<not> special t \<longrightarrow>
             (\<exists>v. Some v \<in> set (components (heap two_positions 0)) \<and> AssignableTo (vtype v) t)))"
    unfolding ins_m using ty acc ex by simp
  from th [THEN conjunct1, THEN mp, OF hyp] obtain st' args where
    t: "tick_object movement 0 two_positions 0 = Inr st'"
    and c: "called st' = called two_positions @ [(0, args)]"
    by (elim exE conjE)
  have res: "resolve (heap two_positions 0) 0 (ins (ftype (Func movement))) = Args ?cargs"
    by (simp add: movement_def two_positions_eq Position_def Velocity_def ValueOf_def
        AssignableTo_def directlyAssignable_def implements_def type_defs)
  from tick_object_Args [OF res ty] obtain st2 where
    "tick_object movement 0 two_positions 0 = Inr st2"
    "called st2 = called two_positions @ [(0, ?cargs)]" by blast
  with t c have "called st' = [(0, ?cargs)]" by (simp add: two_positions_eq)
  with t have 1: "\<exists>st'. tick_object movement 0 two_positions 0 = Inr st' \<and>
          called st' = [(0, ?cargs)]" by blast
  note th2 = resolve_first_or_skip [where t = VelocityT and s = movement
      and st = three_objects and a = 0 and now = 0 and as = "[1, 2]"]
  have mem: "VelocityT \<in> set (ins (ftype (Func movement)))"
    by (simp add: movement_def)
  have "\<exists>st'. tick_object movement 0 three_objects 0 = Inr st' \<and>
              (st' = three_objects \<or>
               (\<exists>err. st' = three_objects\<lparr>logged := logged three_objects @
                   [''failed to make object iter: '' @ err]\<rparr>)) \<and>
              called st' = called three_objects \<and>
              tick_loop movement 0 (0 # [1, 2]) three_objects = tick_loop movement 0 [1, 2] st'"
    using th2 [THEN conjunct2] mem sp asg
    by (simp add: three_objects_eq Player_def Position_def del: tick_loop.simps)
  moreover have t3: "tick_object movement 0 three_objects 0 = Inr three_objects"
    by (simp add: tick_object_def movement_def three_objects_eq Player_def Position_def
        ValueOf_def AssignableTo_def directlyAssignable_def implements_def type_defs)
  ultimately have 2: "tick_loop movement 0 [0, 1, 2] three_objects =
       tick_loop movement 0 [1, 2] three_objects"
    by (auto simp del: tick_loop.simps)
  from ty 1 mem t3 2 show ?thesis
    by (simp add: two_positions_eq del: tick_loop.simps)
qed

subsection \<open>Systems over special parameters only\<close>

lemma special_arg_entity:
  "entity ob' = entity ob \<Longrightarrow> special_arg ob' now t = special_arg ob now t"
  by (simp add: special_arg_def)

lemma resolve_special_args:
  "list_all special ts \<Longrightarrow> list_all accepted ts \<Longrightarrow>
   resolve ob now ts = Args (map (special_arg ob now) ts)"
proof (induction ts)
  case Nil
  then show ?case by simp
next
  case (Cons t ts)
  then have r: "resolve ob now ts = Args (map (special_arg ob now) ts)" by simp
  from Cons.prems have "special t" "accepted t" by simp_all
  then show ?case
    using r by (auto simp: special_def accepted_def special_arg_def dest: makeObjectIter_value)
qed

lemma tick_loop_special:
  assumes sp: "list_all special (ins (ftype (Func s)))"
    and ac: "list_all accepted (ins (ftype (Func s)))"
  shows "(\<forall>a \<in> set as. list_all typed (components (heap st a))) \<Longrightarrow>
         \<exists>st'. tick_loop s now as st = Inr st' \<and>
               called st' = called st @
                 map (\<lambda>a. (a, map (special_arg (heap st a) now) (ins (ftype (Func s))))) as"
proof (induction as arbitrary: st)
  case Nil
  then show ?case by simp
next
  case (Cons a as)
  let ?ts = "ins (ftype (Func s))"
  from Cons.prems have ty: "list_all typed (components (heap st a))" by simp
  have res: "resolve (heap st a) now ?ts = Args (map (special_arg (heap st a) now) ?ts)"
    using sp ac by (rule resolve_special_args)
  from tick_object_Args [OF res ty] obtain st1 where
    t: "tick_object s now st a = Inr st1"
    and c: "called st1 = called st @ [(a, map (special_arg (heap st a) now) ?ts)]"
    and en: "\<forall>b. entity (heap st1 b) = entity (heap st b)"
    and tp: "\<forall>b. list_all typed (components (heap st b)) \<longrightarrow>
                 list_all typed (components (heap st1 b))" by blast
  from Cons.prems tp have "\<forall>b \<in> set as. list_all typed (components (heap st1 b))" by simp
  from Cons.IH [OF this] obtain st' where
    l: "tick_loop s now as st1 = Inr st'"
    and c': "called st' = called st1 @ map (\<lambda>a. (a, map (special_arg (heap st1 a) now) ?ts)) as"
    by blast
  have "\<And>b. special_arg (heap st1 b) now = special_arg (heap st b) now"
    using en by (auto simp: fun_eq_iff intro: special_arg_entity)
  with c c' have "called st' = called st @
      map (\<lambda>a. (a, map (special_arg (heap st a) now) ?ts)) (a # as)" by simp
  with t l show ?case by simp
qed

lemma tick_loop_rejected:
  assumes i: "ins (ftype (Func s)) = pre @ u # post"
    and sp: "list_all special pre" and ac: "list_all accepted pre"
    and u: "Kind u = KFunc" "makeObjectIter u = Inl err"
  shows "tick_loop s now as st =
     Inr (st\<lparr>logged := logged st @
                replicate (length as) (''failed to make object iter: '' @ err)\<rparr>)"
proof (induction as arbitrary: st)
  case Nil
  then show ?case by simp
next
  case (Cons a as)
  let ?line = "''failed to make object iter: '' @ err"
  have "resolve (heap st a) now pre = Args (map (special_arg (heap st a) now) pre)"
    using sp ac by (rule resolve_special_args)
  moreover have "resolve (heap st a) now (u # post) = IterFailed err"
    using u KFunc_not_special_type [of u] by simp
  ultimately have "resolve (heap st a) now (ins (ftype (Func s))) = IterFailed err"
    by (simp add: i resolve_after_Args del: resolve.simps)
  then have t: "tick_object s now st a = Inr (st\<lparr>logged := logged st @ [?line]\<rparr>)"
    by (simp add: tick_object_def)
  have "tick_loop s now as (st\<lparr>logged := logged st @ [?line]\<rparr>) =
      Inr (st\<lparr>logged := logged st @ [?line] @ replicate (length as) ?line\<rparr>)"
    by (simp add: Cons.IH)
  with t show ?case by (simp add: replicate_app_Cons_same del: append.simps)
qed

text \<open>
  \<^verbatim>\<open>f.Type().NumIn()\<close> panics for a \<^verbatim>\<open>Func\<close> that is not a function, before any object is
  visited.
\<close>

lemma tick_non_function:
  "Kind (ftype (Func s)) \<noteq> KFunc \<Longrightarrow> tick s st now = Inl (NumInOfNonFunc (ftype (Func s)))"
  by (simp add: tick_def)

text \<open>
  A sweep whose function removes nothing is the sweep \<open>tick\<close>.
\<close>

lemma removing_step_nothing:
  "removing_step (\<lambda>args st. []) s now (arr, st) a =
     (case tick_object s now st a of Inl p \<Rightarrow> Inl p | Inr st' \<Rightarrow> Inr (arr, st'))"
  by (simp split: sum.splits resolved.splits del: resolve.simps)

lemma removing_loop_nothing:
  "removing_loop (\<lambda>args st. []) s now [i..<length arr] (arr, st) =
     (case tick_loop s now (drop i arr) st of Inl p \<Rightarrow> Inl p | Inr st' \<Rightarrow> Inr (arr, st'))"
proof (induction "length arr - i" arbitrary: i st)
  case 0
  then show ?case by simp
next
  case (Suc d)
  then have lt: "i < length arr" by simp
  then have u: "[i..<length arr] = i # [Suc i..<length arr]" by (rule upt_conv_Cons)
  from lt have dr: "drop i arr = arr ! i # drop (Suc i) arr"
    by (simp add: Cons_nth_drop_Suc)
  from Suc.hyps(2) have d: "d = length arr - Suc i" by simp
  show ?case
    unfolding u dr
    by (simp add: removing_step_nothing Suc.hyps(1) [OF d] split: sum.splits
        del: removing_step.simps)
qed

lemma tick_removing_nothing:
  "tick_removing (\<lambda>args st. []) s st now = tick s st now"
  using removing_loop_nothing [of s now 0 "objects st" st]
  by (simp add: tick_removing_def tick_def split: sum.splits)

text \<open>
  The system \<open>lonely\<close>, over \<^verbatim>\<open>func() bool\<close>, is not called in a world of three objects: each
  object is skipped with a line logged.
\<close>

lemma lonely_sweep:
  "list_all special (ins (ftype (Func lonely))) \<and>
   objects three_objects = [0, 1, 2] \<and>
   tick lonely three_objects 0 =
     Inr (three_objects\<lparr>logged := replicate 3 (''failed to make object iter: '' @
            ''invalid signature: at least two return values expected'')\<rparr>) \<and>
   called three_objects = []"
proof -
  have lg: "logged three_objects = []" "called three_objects = []"
    by (simp_all add: three_objects_def spawn_def NewObject_def AddObject_def NewWorld_def)
  have mk: "makeObjectIter (FuncT [] [BoolT]) =
      Inl ''invalid signature: at least two return values expected''"
    by (simp add: makeObjectIter_def NumIn_def NumOut_def)
  have t: "\<And>st a. tick_object lonely 0 st a = Inr (st\<lparr>logged := logged st @
      [''failed to make object iter: '' @
       ''invalid signature: at least two return values expected'']\<rparr>)"
    by (simp add: tick_object_def lonely_def mk type_defs)
  have "tick lonely three_objects 0 = tick_loop lonely 0 [0, 1, 2] three_objects"
    by (simp add: tick_def lonely_def three_objects_eq)
  also have "\<dots> = Inr (three_objects\<lparr>logged := replicate 3 (''failed to make object iter: '' @
            ''invalid signature: at least two return values expected'')\<rparr>)"
    by (simp add: t lg numeral_3_eq_3)
  finally show ?thesis
    by (simp add: lonely_def special_def three_objects_eq lg)
qed

text \<open>
  In a world of three objects, the sweep of the system that removes its own entity calls the
  function for the first object, then twice for the third, and never for the second, which
  stays in the world: after the first removal the second element of the array is the third
  object, and the last element still is.
\<close>

lemma self_removing_sweep:
  "list_all special (ins (ftype (Func self_destruct))) \<and>
   (\<exists>st'. tick_removing removes_itself self_destruct three_objects 0 = Inr st' \<and>
          map fst (called st') = [0, 2, 2] \<and> objects st' = [1])"
proof -
  have lg: "logged three_objects = []" "called three_objects = []"
    by (simp_all add: three_objects_def spawn_def NewObject_def AddObject_def NewWorld_def)
  have ne: "entityType \<noteq> worldType" by (simp add: type_defs)
  have i: "ins (ftype (Func self_destruct)) = [worldType, entityType]"
    "outs (ftype (Func self_destruct)) = []" "Kind (ftype (Func self_destruct)) = KFunc"
    by (simp_all add: self_destruct_def)
  have res: "\<And>ob. resolve ob 0 [worldType, entityType] =
      Args [V worldType PWorld, V entityType (PUint (entity ob))]"
    by (simp add: ne)
  have call: "\<And>ob st. Call (Func self_destruct)
       [V worldType PWorld, V entityType (PUint (entity ob))] st = Inr []"
    by (simp add: Call_def i assignTo_def directlyAssignable_def NumOut_def)
  have t: "\<And>st a. tick_object self_destruct 0 st a =
      Inr (st\<lparr>called := called st @
             [(a, [V worldType PWorld, V entityType (PUint (entity (heap st a)))])]\<rparr>)"
    unfolding tick_object_def by (simp add: i res call del: resolve.simps)
  have step: "\<And>arr st a. removing_step removes_itself self_destruct 0 (arr, st) a =
      Inr (remove_in_place (entity (heap st a))
             (arr, st\<lparr>called := called st @
                [(a, [V worldType PWorld, V entityType (PUint (entity (heap st a)))])]\<rparr>))"
    by (simp add: t i res removes_itself_def del: resolve.simps remove_in_place.simps)
  have ob: "objects three_objects = [0, 1, 2]" by (simp add: three_objects_eq)
  have up: "[0..<length [0::nat, 1, 2]] = [0, 1, 2]" by (simp add: upt_rec)
  have loop: "removing_loop removes_itself self_destruct 0 [0, 1, 2] ([0, 1, 2], three_objects) =
      Inr ([1, 2, 2], three_objects\<lparr>objects := [1],
             called := [(0, [V worldType PWorld, V entityType (PUint 1)]),
                        (2, [V worldType PWorld, V entityType (PUint 3)]),
                        (2, [V worldType PWorld, V entityType (PUint 3)])]\<rparr>)"
    by (simp add: step three_objects_eq lg RemoveObject_def shift_down_def
        RemoveObject_loop.simps del: removing_step.simps)
  have tr: "tick_removing removes_itself self_destruct three_objects 0 =
      Inr (three_objects\<lparr>objects := [1],
             called := [(0, [V worldType PWorld, V entityType (PUint 1)]),
                        (2, [V worldType PWorld, V entityType (PUint 3)]),
                        (2, [V worldType PWorld, V entityType (PUint 3)])]\<rparr>)"
    unfolding tick_removing_def ob up loop by (simp add: i)
  have sa: "list_all special (ins (ftype (Func self_destruct)))"
    by (simp add: i special_def)
  show ?thesis unfolding tr using sa by simp
qed

text \<open>
  Claim C8 says that a system whose parameters require no data component is invoked once for
  every object. A function-typed parameter requires no component, but when its type is not one
  that \<^verbatim>\<open>makeObjectIter\<close> accepts, the dispatcher skips every object, logging a line for
  each: the system \<open>lonely\<close>, over \<^verbatim>\<open>func() bool\<close>, is not called in a world of three objects
  and leaves three lines in the log. And a system over the world and the entity whose function
  removes its own entity is called for the first object and twice for the third of three
  objects, never for the second.
\<close>

theorem special_only_counterexample:
  "(list_all special (ins (ftype (Func lonely))) \<and>
    objects three_objects = [0, 1, 2] \<and>
    tick lonely three_objects 0 =
      Inr (three_objects\<lparr>logged := replicate 3 (''failed to make object iter: '' @
             ''invalid signature: at least two return values expected'')\<rparr>) \<and>
    called three_objects = []) \<and>
   (list_all special (ins (ftype (Func self_destruct))) \<and>
    (\<exists>st'. tick_removing removes_itself self_destruct three_objects 0 = Inr st' \<and>
           map fst (called st') = [0, 2, 2] \<and> objects st' = [1]))"
  using lonely_sweep self_removing_sweep by (rule conjI)

text \<open>
  Claim C8, amended. Let \<^verbatim>\<open>Func\<close> be a function. When all its parameters are special (world,
  entity, timestamp or function type), each function type being one that \<^verbatim>\<open>makeObjectIter\<close>
  accepts, one sweep over objects whose components are typed values calls the function exactly
  once for each object of the collection, in the order of the collection, with the world, the
  entity of the object, the timestamp and the iterators as arguments; an object with an empty
  component list is one of them. When the first parameter that is not an accepted special one
  is a function type that \<^verbatim>\<open>makeObjectIter\<close> rejects, the sweep calls the function for no
  object and logs one line for each object of the collection, changing nothing else. Both
  hold for a function that leaves the world as it is during the sweep; the sweep \<open>tick\<close> is,
  in particular, the sweep whose function removes nothing.
\<close>

theorem special_only_once_per_object:
  assumes fn: "Kind (ftype (Func s)) = KFunc"
  shows "(list_all special (ins (ftype (Func s))) \<and> list_all accepted (ins (ftype (Func s))) \<and>
            (\<forall>a \<in> set (objects st). list_all typed (components (heap st a)))
          \<longrightarrow> (\<exists>st'. tick s st now = Inr st' \<and>
                 called st' = called st @
                   map (\<lambda>a. (a, map (special_arg (heap st a) now) (ins (ftype (Func s)))))
                     (objects st))) \<and>
         (ins (ftype (Func s)) = pre @ u # post \<and> list_all special pre \<and> list_all accepted pre \<and>
            Kind u = KFunc \<and> makeObjectIter u = Inl err
          \<longrightarrow> tick s st now =
                Inr (st\<lparr>logged := logged st @
                       replicate (length (objects st))
                         (''failed to make object iter: '' @ err)\<rparr>)) \<and>
         tick_removing (\<lambda>args st. []) s st now = tick s st now"
proof (intro conjI impI)
  assume "list_all special (ins (ftype (Func s))) \<and> list_all accepted (ins (ftype (Func s))) \<and>
            (\<forall>a \<in> set (objects st). list_all typed (components (heap st a)))"
  then have sp: "list_all special (ins (ftype (Func s)))"
    and ac: "list_all accepted (ins (ftype (Func s)))"
    and ty: "\<forall>a \<in> set (objects st). list_all typed (components (heap st a))" by simp_all
  from tick_loop_special [OF sp ac ty, of now]
  show "\<exists>st'. tick s st now = Inr st' \<and>
                 called st' = called st @
                   map (\<lambda>a. (a, map (special_arg (heap st a) now) (ins (ftype (Func s)))))
                     (objects st)"
    by (simp add: tick_def fn)
next
  assume "ins (ftype (Func s)) = pre @ u # post \<and> list_all special pre \<and> list_all accepted pre \<and>
            Kind u = KFunc \<and> makeObjectIter u = Inl err"
  then have i: "ins (ftype (Func s)) = pre @ u # post" and sp: "list_all special pre"
    and ac: "list_all accepted pre" and u: "Kind u = KFunc" "makeObjectIter u = Inl err"
    by simp_all
  have "tick_loop s now (objects st) st =
      Inr (st\<lparr>logged := logged st @
             replicate (length (objects st)) (''failed to make object iter: '' @ err)\<rparr>)"
    using i sp ac u by (rule tick_loop_rejected)
  then show "tick s st now =
                Inr (st\<lparr>logged := logged st @
                       replicate (length (objects st))
                         (''failed to make object iter: '' @ err)\<rparr>)"
    by (simp add: tick_def fn)
next
  show "tick_removing (\<lambda>args st. []) s st now = tick s st now"
    by (rule tick_removing_nothing)
qed

text \<open>
  The system over (world, entity, timestamp) is called for the three objects in order, with
  their entities; the third object has no components. The system over an entity and
  \<^verbatim>\<open>func() bool\<close> leaves three lines in the log.
\<close>

theorem special_only_once_per_object_witness:
  "Kind (ftype (Func observer)) = KFunc \<and>
   components (heap three_objects 2) = [] \<and>
   (\<exists>st'. tick observer three_objects 0 = Inr st' \<and>
      called st' =
        [(0, [V worldType PWorld, V entityType (PUint 1), V timeType (PTime 0)]),
         (1, [V worldType PWorld, V entityType (PUint 2), V timeType (PTime 0)]),
         (2, [V worldType PWorld, V entityType (PUint 3), V timeType (PTime 0)])]) \<and>
   tick watcher three_objects 0 =
     Inr (three_objects\<lparr>logged := replicate 3 (''failed to make object iter: '' @
            ''invalid signature: at least two return values expected'')\<rparr>)"
proof -
  have fn: "Kind (ftype (Func observer)) = KFunc" "Kind (ftype (Func watcher)) = KFunc"
    by (simp_all add: observer_def watcher_def)
  have io: "ins (ftype (Func observer)) = [worldType, entityType, timeType]"
    by (simp add: observer_def)
  have sp: "list_all special (ins (ftype (Func observer)))"
    by (simp add: io special_def)
  have ac: "list_all accepted (ins (ftype (Func observer)))"
    by (simp add: io accepted_def type_defs)
  have ty: "\<forall>a \<in> set (objects three_objects). list_all typed (components (heap three_objects a))"
    by (simp add: three_objects_eq typed_def Player_def Target_def Position_def type_defs)
  have lg: "logged three_objects = []" "called three_objects = []"
    by (simp_all add: three_objects_def spawn_def NewObject_def AddObject_def NewWorld_def)
  have ne: "entityType \<noteq> worldType" "timeType \<noteq> worldType" "timeType \<noteq> entityType"
    by (simp_all add: type_defs)
  from special_only_once_per_object [OF fn(1), THEN conjunct1, THEN mp, of three_objects 0]
    sp ac ty
  have "\<exists>st'. tick observer three_objects 0 = Inr st' \<and>
                 called st' = called three_objects @
                   map (\<lambda>a. (a, map (special_arg (heap three_objects a) 0)
                                  (ins (ftype (Func observer)))))
                     (objects three_objects)"
    by blast
  then have 1: "\<exists>st'. tick observer three_objects 0 = Inr st' \<and>
      called st' =
        [(0, [V worldType PWorld, V entityType (PUint 1), V timeType (PTime 0)]),
         (1, [V worldType PWorld, V entityType (PUint 2), V timeType (PTime 0)]),
         (2, [V worldType PWorld, V entityType (PUint 3), V timeType (PTime 0)])]"
    by (simp add: lg io three_objects_eq special_arg_def ne)
  have iw: "ins (ftype (Func watcher)) = [entityType] @ FuncT [] [BoolT] # []"
    by (simp add: watcher_def)
  have mk: "makeObjectIter (FuncT [] [BoolT]) =
      Inl ''invalid signature: at least two return values expected''"
    by (simp add: makeObjectIter_def NumIn_def NumOut_def)
  have pw: "list_all special [entityType]" "list_all accepted [entityType]"
    by (simp_all add: special_def accepted_def type_defs)
  have hyp2: "ins (ftype (Func watcher)) = [entityType] @ FuncT [] [BoolT] # [] \<and>
      list_all special [entityType] \<and> list_all accepted [entityType] \<and>
      Kind (FuncT [] [BoolT]) = KFunc \<and>
      makeObjectIter (FuncT [] [BoolT]) =
        Inl ''invalid signature: at least two return values expected''"
    using iw mk pw by simp
  from special_only_once_per_object [OF fn(2), THEN conjunct2, THEN conjunct1, THEN mp, OF hyp2,
      of three_objects 0]
  have 2: "tick watcher three_objects 0 =
     Inr (three_objects\<lparr>logged := replicate 3 (''failed to make object iter: '' @
            ''invalid signature: at least two return values expected'')\<rparr>)"
    by (simp add: lg three_objects_eq numeral_3_eq_3)
  have 0: "components (heap three_objects 2) = []" by (simp add: three_objects_eq)
  from fn(1) 0 1 2 show ?thesis by (simp only: simp_thms)
qed

section \<open>Properties of the query iterator\<close>

lemma getComponentValue_loop_find:
  "None \<notin> set cs \<Longrightarrow>
   getComponentValue_loop t cs =
     Inr (case find (\<lambda>c. TypeOf c = Some t) cs of None \<Rightarrow> None | Some c \<Rightarrow> c)"
proof (induction cs)
  case Nil
  then show ?case by simp
next
  case (Cons c cs)
  then obtain v where "c = Some v" by (cases c) auto
  with Cons show ?case by (auto simp: ValueOf_def TypeOf_def)
qed

lemma find_list_ex:
  "list_ex P xs \<Longrightarrow> \<exists>x. find P xs = Some x \<and> P x"
  by (induction xs) auto

lemma find_not_list_ex:
  "\<not> list_ex P xs \<Longrightarrow> find P xs = None"
  by (induction xs) auto

lemma getComponentValue_found:
  assumes "None \<notin> set (components ob)" "list_ex (\<lambda>c. TypeOf c = Some ot) (components ob)"
  shows "getComponentValue ob ot = Inr (Some (first_component ob ot)) \<and>
         vtype (first_component ob ot) = ot"
proof -
  from find_list_ex [OF assms(2)] obtain c where
    f: "find (\<lambda>c. TypeOf c = Some ot) (components ob) = Some c" and t: "TypeOf c = Some ot"
    by auto
  from t obtain v where c: "c = Some v" "vtype v = ot" by (auto simp: TypeOf_def)
  show ?thesis
    using assms(1) f c
    by (simp add: getComponentValue_def getComponentValue_loop_find first_component_def)
qed

lemma getComponentValue_missing:
  assumes "None \<notin> set (components ob)" "\<not> list_ex (\<lambda>c. TypeOf c = Some ot) (components ob)"
  shows "getComponentValue ob ot = Inr None"
  using assms
  by (simp add: getComponentValue_def getComponentValue_loop_find find_not_list_ex)

lemma iter_outputs_spec:
  assumes nn: "None \<notin> set (components ob)"
  shows "iter_outputs ob idx ots =
     Inr (if list_all (wants ob) ots then Some (map (out_value ob idx) ots) else None)"
proof (induction ots)
  case Nil
  then show ?case by simp
next
  case (Cons ot ots)
  show ?case
  proof (cases "ot = intType \<or> ot = entityType")
    case True
    then show ?thesis using Cons by (auto simp: wants_def out_value_def)
  next
    case False
    show ?thesis
    proof (cases "list_ex (\<lambda>c. TypeOf c = Some ot) (components ob)")
      case True
      from getComponentValue_found [OF nn True] False Cons True show ?thesis
        by (auto simp: wants_def out_value_def)
    next
      case no: False
      from getComponentValue_missing [OF nn no] False no show ?thesis
        by (auto simp: wants_def)
    qed
  qed
qed

lemma iter_loop_found:
  "(\<forall>b \<in> set pre. None \<notin> set (components (h b)) \<and> \<not> list_all (wants (h b)) ots) \<Longrightarrow>
   None \<notin> set (components (h a)) \<Longrightarrow> list_all (wants (h a)) ots \<Longrightarrow>
   iter_loop h ots idx (pre @ a # rest) =
     Inr (Some (map (out_value (h a) (idx + int (length pre))) ots @ [V BoolT (PBool True)]))"
proof (induction pre arbitrary: idx)
  case Nil
  then show ?case by (simp add: iter_outputs_spec)
next
  case (Cons b pre)
  then have "iter_loop h ots (idx + 1) (pre @ a # rest) =
     Inr (Some (map (out_value (h a) (idx + 1 + int (length pre))) ots @ [V BoolT (PBool True)]))"
    by simp
  moreover have "idx + 1 + int (length pre) = idx + int (length (b # pre))" by simp
  ultimately show ?case using Cons.prems by (simp add: iter_outputs_spec)
qed

lemma iter_loop_none:
  "(\<forall>b \<in> set obs. None \<notin> set (components (h b)) \<and> \<not> list_all (wants (h b)) ots) \<Longrightarrow>
   iter_loop h ots idx obs = Inr None"
  by (induction obs arbitrary: idx) (auto simp: iter_outputs_spec)

lemma assignAll_same_types:
  "map vtype vs = ts \<Longrightarrow> assignAll vs ts = Inr vs"
proof (induction vs arbitrary: ts)
  case Nil
  then show ?case by simp
next
  case (Cons v vs)
  then obtain us where ts: "ts = vtype v # us" and "map vtype vs = us" by auto
  with Cons.IH have "assignAll vs us = Inr vs" by simp
  moreover have "assignTo v (vtype v) = Some v"
    by (cases v) (simp add: assignTo_def directlyAssignable_def)
  ultimately show ?case by (simp add: ts)
qed

lemma zero_payload_bool: "Kind t = KBool \<Longrightarrow> zero_payload t = PBool False"
  by (induction t) auto

lemma map_out_value_types:
  "None \<notin> set (components ob) \<Longrightarrow> list_all (wants ob) ots \<Longrightarrow>
   map vtype (map (out_value ob idx) ots) = ots"
proof (induction ots)
  case Nil
  then show ?case by simp
next
  case (Cons ot ots)
  then have "vtype (out_value ob idx ot) = ot"
    using getComponentValue_found [of ob ot]
    by (auto simp: out_value_def wants_def)
  with Cons show ?case by simp
qed

lemma iter_not_found_types: "map vtype (iter_not_found st t) = outs t"
  by (simp add: iter_not_found_def Zero_def comp_def if_distrib [of vtype] cong: if_cong)


lemma shape_facts:
  assumes "makeObjectIter t = Inr it"
  shows "NumIn t \<le> 1" "outs t \<noteq> []" "Kind (last (outs t)) = KBool"
proof -
  from assms have a: "NumIn t \<le> 1" "2 \<le> NumOut t" "Kind (outs t ! (NumOut t - 1)) = KBool"
    by (auto simp: makeObjectIter_def split: if_splits)
  then show "NumIn t \<le> 1" by simp
  from a show ne: "outs t \<noteq> []" by (auto simp: NumOut_def)
  from a ne show "Kind (last (outs t)) = KBool" by (simp add: last_conv_nth NumOut_def)
qed

lemma iter_start_offset:
  "(ins t = [] \<and> args = [] \<and> k = 0) \<or> (ins t = [intType] \<and> args = [V intType (PInt k)]) \<Longrightarrow>
   iter_start t args = Inr k"
  by (auto simp: iter_start_def NumIn_def intType_def)

text \<open>
  Claim C7 says that a query called with the offset \<open>k\<close> reports not-found, with the length
  of the collection as its index, when no object from \<open>k\<close> on satisfies it. With an offset
  beyond the length of the collection no object does, but the slice expression
  \<^verbatim>\<open>w.objects[start:]\<close> panics: offset 4 in a world of three objects.
\<close>

theorem objectIter_out_of_range:
  "makeObjectIter targetIterT = Inr (V targetIterT PIter) \<and>
   length (objects three_objects) = 3 \<and>
   objectIter three_objects targetIterT [V intType (PInt 4)] = Inl (SliceBounds 4 3)"
  by (simp add: makeObjectIter_def objectIter_def iter_start_def targetIterT_def NumIn_def
      NumOut_def three_objects_eq type_defs)

text \<open>
  Claim C7, amended. Take a function type that \<^verbatim>\<open>makeObjectIter\<close> accepts, with no input
  (the offset \<open>k\<close> is 0) or the one input \<^verbatim>\<open>int\<close>, an offset \<open>k\<close> between 0 and the length of
  the collection, and objects without nil components. When the last output is \<^verbatim>\<open>bool\<close>
  and the object at index \<open>n\<close> is the first from \<open>k\<close> on that satisfies the query, the call
  returns the index \<open>n\<close>, the entity and the first component of each requested type of that
  object, and true. When no object from \<open>k\<close> on satisfies the query, every output is the zero
  value of its type, except that an output of type \<^verbatim>\<open>int\<close> is the length of the collection;
  the last output is false.
\<close>

theorem objectIter_result:
  assumes shape: "makeObjectIter t = Inr it"
    and offset: "(ins t = [] \<and> args = [] \<and> k = 0) \<or>
                 (ins t = [intType] \<and> args = [V intType (PInt k)])"
    and range: "0 \<le> k" "k \<le> int (length (objects st))"
    and nonnil: "\<forall>a \<in> set (objects st). None \<notin> set (components (heap st a))"
  shows "(last (outs t) = BoolT \<and> nat k \<le> n \<and> n < length (objects st) \<and>
            satisfies (heap st (objects st ! n)) t \<and>
            (\<forall>j. nat k \<le> j \<and> j < n \<longrightarrow> \<not> satisfies (heap st (objects st ! j)) t)
          \<longrightarrow> objectIter st t args = Inr (found_outputs (heap st (objects st ! n)) (int n) t)) \<and>
         ((\<forall>j. nat k \<le> j \<and> j < length (objects st) \<longrightarrow>
                \<not> satisfies (heap st (objects st ! j)) t)
          \<longrightarrow> (\<exists>results. objectIter st t args = Inr results \<and>
                 results = map (\<lambda>ot. if ot = intType
                                       then V intType (PInt (int (length (objects st))))
                                       else Zero ot) (outs t) \<and>
                 last results = V (last (outs t)) (PBool False)))"
proof (intro conjI impI)
  let ?obs = "objects st" and ?h = "heap st" and ?ots = "butlast (outs t)"
  let ?k = "nat k"
  note sh = shape_facts [OF shape]
  have start: "iter_start t args = Inr k" using offset by (rule iter_start_offset)
  have inr: "\<not> (k < 0 \<or> int (length ?obs) < k)" using range by simp
  {
    assume h: "last (outs t) = BoolT \<and> ?k \<le> n \<and> n < length ?obs \<and>
            satisfies (?h (?obs ! n)) t \<and>
            (\<forall>j. ?k \<le> j \<and> j < n \<longrightarrow> \<not> satisfies (?h (?obs ! j)) t)"
    let ?d = "drop ?k ?obs" and ?m = "n - ?k"
    from h have hl: "last (outs t) = BoolT" and hk: "?k \<le> n" and hn: "n < length ?obs"
      and hs: "satisfies (?h (?obs ! n)) t"
      and hj: "\<And>j. ?k \<le> j \<Longrightarrow> j < n \<Longrightarrow> \<not> satisfies (?h (?obs ! j)) t"
      by blast+
    from hk hn have m: "?m < length ?d" by simp
    have dn: "?d ! ?m = ?obs ! n" using hk hn by simp
    have split: "?d = take ?m ?d @ ?obs ! n # drop (Suc ?m) ?d"
      using id_take_nth_drop [OF m] dn by simp
    have pre: "\<forall>b \<in> set (take ?m ?d).
        None \<notin> set (components (?h b)) \<and> \<not> list_all (wants (?h b)) ?ots"
    proof
      fix b assume "b \<in> set (take ?m ?d)"
      then obtain i where i: "i < ?m" "b = take ?m ?d ! i"
        by (auto simp: in_set_conv_nth)
      then have b: "b = ?obs ! (?k + i)" using hk hn by simp
      with i hk hn have "b \<in> set ?obs" by simp
      moreover from i b hj [of "?k + i"] have "\<not> satisfies (?h b) t" by simp
      ultimately show "None \<notin> set (components (?h b)) \<and> \<not> list_all (wants (?h b)) ?ots"
        using nonnil by (simp add: satisfies_def)
    qed
    have an: "None \<notin> set (components (?h (?obs ! n)))" using nonnil hn by simp
    have aw: "list_all (wants (?h (?obs ! n))) ?ots" using hs by (simp add: satisfies_def)
    have idx: "k + int (length (take ?m ?d)) = int n" using hk hn range by simp
    have "iter_loop ?h ?ots k (take ?m ?d @ ?obs ! n # drop (Suc ?m) ?d) =
            Inr (Some (map (out_value (?h (?obs ! n)) (k + int (length (take ?m ?d)))) ?ots
                       @ [V BoolT (PBool True)]))"
      using pre an aw by (rule iter_loop_found)
    then have loop: "iter_loop ?h ?ots k ?d =
            Inr (Some (found_outputs (?h (?obs ! n)) (int n) t))"
      unfolding idx found_outputs_def using split by simp
    have "map vtype (found_outputs (?h (?obs ! n)) (int n) t) = ?ots @ [last (outs t)]"
      using map_out_value_types [OF an aw] hl by (simp add: found_outputs_def)
    then have ty: "map vtype (found_outputs (?h (?obs ! n)) (int n) t) = outs t"
      using sh(2) by simp
    show "objectIter st t args = Inr (found_outputs (?h (?obs ! n)) (int n) t)"
      unfolding objectIter_def
      by (simp add: start inr loop assignAll_same_types [OF ty])
  }
  {
    assume h: "\<forall>j. ?k \<le> j \<and> j < length ?obs \<longrightarrow> \<not> satisfies (?h (?obs ! j)) t"
    have all: "\<forall>b \<in> set (drop ?k ?obs).
        None \<notin> set (components (?h b)) \<and> \<not> list_all (wants (?h b)) ?ots"
    proof
      fix b assume bd: "b \<in> set (drop ?k ?obs)"
      then obtain i where i: "i < length (drop ?k ?obs)" "b = drop ?k ?obs ! i"
        by (auto simp: in_set_conv_nth)
      then have b: "b = ?obs ! (?k + i)" "?k + i < length ?obs" by simp_all
      with h have "\<not> satisfies (?h b) t" by simp
      moreover from bd have "b \<in> set ?obs" by (rule in_set_dropD)
      ultimately show "None \<notin> set (components (?h b)) \<and> \<not> list_all (wants (?h b)) ?ots"
        using nonnil by (simp add: satisfies_def)
    qed
    have loop: "iter_loop ?h ?ots k (drop ?k ?obs) = Inr None"
      using all by (rule iter_loop_none)
    have r: "objectIter st t args = Inr (iter_not_found st t)"
      unfolding objectIter_def
      by (simp add: start inr loop assignAll_same_types [OF iter_not_found_types])
    have ni: "last (outs t) \<noteq> intType" using sh(3) by (auto simp: intType_def)
    have "last (iter_not_found st t) = Zero (last (outs t))"
      using sh(2) ni by (simp add: iter_not_found_def last_map)
    then have l: "last (iter_not_found st t) = V (last (outs t)) (PBool False)"
      using zero_payload_bool [OF sh(3)] by (simp add: Zero_def)
    show "\<exists>results. objectIter st t args = Inr results \<and>
                 results = map (\<lambda>ot. if ot = intType
                                       then V intType (PInt (int (length (objects st))))
                                       else Zero ot) (outs t) \<and>
                 last results = V (last (outs t)) (PBool False)"
      using r l by (simp add: iter_not_found_def)
  }
qed


text \<open>
  The query of \<^verbatim>\<open>TestQueryAll\<close> in the world of three objects: from offset 0 it finds the
  target at index 1, with entity 2; from offset 2 it finds nothing and returns the length 3.
\<close>

theorem objectIter_result_witness:
  "objectIter three_objects targetIterT [V intType (PInt 0)] =
     Inr [V intType (PInt 1), V entityType (PUint 2), V TargetT (PStruct []),
          V BoolT (PBool True)] \<and>
   objectIter three_objects targetIterT [V intType (PInt 2)] =
     Inr [V intType (PInt 3), V entityType (PUint 0), V TargetT (PStruct []),
          V BoolT (PBool False)]"
proof -
  let ?t = targetIterT
  have shape: "makeObjectIter ?t = Inr (V ?t PIter)"
    by (simp add: makeObjectIter_def targetIterT_def NumIn_def NumOut_def type_defs)
  have io: "ins ?t = [intType]" "outs ?t = [intType, entityType, TargetT, BoolT]"
    by (simp_all add: targetIterT_def)
  have nonnil: "\<forall>a \<in> set (objects three_objects). None \<notin> set (components (heap three_objects a))"
    by (simp add: three_objects_eq Player_def Target_def Position_def)
  have neq: "TargetT \<noteq> intType" "TargetT \<noteq> entityType" "entityType \<noteq> intType"
    "PlayerT \<noteq> TargetT" "PositionT \<noteq> TargetT" "BoolT \<noteq> intType"
    by (simp_all add: type_defs)
  have s0: "\<not> satisfies (heap three_objects 0) ?t"
    by (simp add: satisfies_def wants_def io three_objects_eq Player_def Position_def
        TypeOf_def neq)
  have s1: "satisfies (heap three_objects (Suc 0)) ?t"
    by (simp add: satisfies_def wants_def io three_objects_eq Target_def Position_def
        TypeOf_def neq)
  have s2: "\<not> satisfies (heap three_objects 2) ?t"
    by (simp add: satisfies_def wants_def io three_objects_eq neq)
  have f1: "found_outputs (heap three_objects (Suc 0)) 1 ?t =
      [V intType (PInt 1), V entityType (PUint 2), V TargetT (PStruct []), V BoolT (PBool True)]"
    by (simp add: found_outputs_def out_value_def first_component_def io three_objects_eq
        Target_def Position_def TypeOf_def neq)
  have "objectIter three_objects ?t [V intType (PInt 0)] =
      Inr (found_outputs (heap three_objects (objects three_objects ! 1)) (int 1) ?t)"
  proof (rule objectIter_result [where k = 0 and n = 1, THEN conjunct1, THEN mp])
    show "makeObjectIter ?t = Inr (V ?t PIter)" by (rule shape)
    show "(ins ?t = [] \<and> [V intType (PInt 0)] = [] \<and> (0::int) = 0) \<or>
          (ins ?t = [intType] \<and> [V intType (PInt 0)] = [V intType (PInt 0)])"
      by (simp add: io)
    show "(0::int) \<le> 0" by simp
    show "0 \<le> int (length (objects three_objects))" by simp
    show "\<forall>a \<in> set (objects three_objects). None \<notin> set (components (heap three_objects a))"
      by (rule nonnil)
    show "last (outs ?t) = BoolT \<and> nat 0 \<le> 1 \<and> 1 < length (objects three_objects) \<and>
          satisfies (heap three_objects (objects three_objects ! 1)) ?t \<and>
          (\<forall>j. nat 0 \<le> j \<and> j < 1 \<longrightarrow> \<not> satisfies (heap three_objects (objects three_objects ! j)) ?t)"
      using s0 s1 by (simp add: io three_objects_eq)
  qed
  then have 1: "objectIter three_objects ?t [V intType (PInt 0)] =
     Inr [V intType (PInt 1), V entityType (PUint 2), V TargetT (PStruct []),
          V BoolT (PBool True)]"
    using f1 by (simp add: three_objects_eq)
  have "\<exists>results. objectIter three_objects ?t [V intType (PInt 2)] = Inr results \<and>
         results = map (\<lambda>ot. if ot = intType
                               then V intType (PInt (int (length (objects three_objects))))
                               else Zero ot) (outs ?t) \<and>
         last results = V (last (outs ?t)) (PBool False)"
  proof (rule objectIter_result [where k = 2 and n = 0, THEN conjunct2, THEN mp])
    show "makeObjectIter ?t = Inr (V ?t PIter)" by (rule shape)
    show "(ins ?t = [] \<and> [V intType (PInt 2)] = [] \<and> (2::int) = 0) \<or>
          (ins ?t = [intType] \<and> [V intType (PInt 2)] = [V intType (PInt 2)])"
      by (simp add: io)
    show "(0::int) \<le> 2" by simp
    show "2 \<le> int (length (objects three_objects))" by (simp add: three_objects_eq)
    show "\<forall>a \<in> set (objects three_objects). None \<notin> set (components (heap three_objects a))"
      by (rule nonnil)
    show "\<forall>j. nat 2 \<le> j \<and> j < length (objects three_objects) \<longrightarrow>
              \<not> satisfies (heap three_objects (objects three_objects ! j)) ?t"
    proof (intro allI impI)
      fix j assume "nat 2 \<le> j \<and> j < length (objects three_objects)"
      then have "j = 2" by (simp add: three_objects_eq)
      then show "\<not> satisfies (heap three_objects (objects three_objects ! j)) ?t"
        using s2 by (simp add: three_objects_eq)
    qed
  qed
  then have 2: "objectIter three_objects ?t [V intType (PInt 2)] =
     Inr [V intType (PInt 3), V entityType (PUint 0), V TargetT (PStruct []),
          V BoolT (PBool False)]"
    by (simp add: io three_objects_eq Zero_def neq type_defs)
  from 1 2 show ?thesis by simp
qed

end
